theory Spec2Isabelle
  imports
    Complex_Main
    "HOL-Library.Log_Nat"
    "HOL-Library.Option_ord"
    "HOL-Library.Product_Lexorder"
    "HOL-Library.Multiset"
begin

section \<open>Data model\<close>

text \<open>
  Documents are the Mongoose schemas of the server. An \<open>ObjectId\<close> is represented by
  its 24-digit hexadecimal string, a \<open>Date\<close> by \<open>Date.getTime()\<close>, the number of
  milliseconds since the epoch (negative before 1970). Stored text is a list of Unicode
  code points, which is what \<open>$strLenCP\<close> counts. A collection is the list of its
  documents in natural (storage) order.
\<close>

type_synonym objectId = string
type_synonym jsdate = int
type_synonym codepoint = nat
type_synonym ustring = "codepoint list"

subsection \<open>Flashcard (models/Flashcard.ts)\<close>

datatype difficulty = easy | medium | hard

datatype mastery = new | learning | proficient | mastered

record flashcard =
  fid :: objectId
  contentId :: objectId
  question :: string
  answer :: string
  difficulty :: difficulty
  tags :: "string list"
  lastReviewed :: "jsdate option"
  reviewCount :: nat
  createdAt :: jsdate
  updatedAt :: jsdate

text \<open>
  The virtual \<open>masteryLevel\<close>. The multiplier table holds 1, 1.5 and 2; the products
  \<open>reviewCount * 10\<close> and \<open>baseScore * 1.5\<close> are exact in binary64 for every review
  count below \<open>2^49\<close>, so the score is a rational number here.
\<close>

definition difficultyMultiplier :: "difficulty \<Rightarrow> rat" where
  "difficultyMultiplier d = (case d of easy \<Rightarrow> 1 | medium \<Rightarrow> 3 / 2 | hard \<Rightarrow> 2)"

definition masteryLevel :: "flashcard \<Rightarrow> mastery" where
  "masteryLevel f =
     (let baseScore = of_nat (reviewCount f) * 10;
          score = baseScore * difficultyMultiplier (difficulty f)
      in if score \<ge> 100 then mastered
         else if score \<ge> 50 then proficient
         else if score \<ge> 20 then learning
         else new)"

text \<open>The order \<open>new < learning < proficient < mastered\<close> of the bands.\<close>

fun band_rank :: "mastery \<Rightarrow> nat" where
  "band_rank new = 0"
| "band_rank learning = 1"
| "band_rank proficient = 2"
| "band_rank mastered = 3"

text \<open>
  The classification as the specification words it: a multiplier per difficulty, a score,
  and four bands of the score.
\<close>

fun spec_multiplier :: "difficulty \<Rightarrow> rat" where
  "spec_multiplier easy = 1"
| "spec_multiplier medium = 15 / 10"
| "spec_multiplier hard = 2"

definition spec_band :: "rat \<Rightarrow> mastery" where
  "spec_band s =
     (if 100 \<le> s then mastered
      else if 50 \<le> s then proficient
      else if 20 \<le> s then learning
      else new)"

definition spec_mastery :: "difficulty \<Rightarrow> nat \<Rightarrow> mastery" where
  "spec_mastery d n = spec_band (of_nat n * 10 * spec_multiplier d)"

subsection \<open>Due-selection query (Flashcard.getForReview)\<close>

text \<open>
  The three MongoDB operations the query uses. A comparison \<open>{field: {$lt: d}}\<close> with
  a date matches only documents whose field holds a date, so a null field never
  matches it; \<open>{field: null}\<close> matches the null (or missing) field. An ascending sort
  places null before every date. \<open>limit(0)\<close> is MongoDB's way of saying "no limit":
  the cursor then returns every matching document. Documents with equal sort keys are
  returned in storage order here (MongoDB leaves their order open).
\<close>

definition mongo_lt :: "jsdate option \<Rightarrow> jsdate \<Rightarrow> bool" where
  "mongo_lt field d = (case field of None \<Rightarrow> False | Some t \<Rightarrow> t < d)"

definition mongo_null :: "jsdate option \<Rightarrow> bool" where
  "mongo_null field = (case field of None \<Rightarrow> True | Some t \<Rightarrow> False)"

definition mongo_limit :: "nat \<Rightarrow> 'a list \<Rightarrow> 'a list" where
  "mongo_limit n docs = (if n = 0 then docs else take n docs)"

definition reviewSortKey :: "flashcard \<Rightarrow> jsdate option \<times> nat" where
  "reviewSortKey f = (lastReviewed f, reviewCount f)"

text \<open>
  \<open>getForReview(contentId, limit = 20)\<close>: the limit argument is optional, and \<open>now\<close> is
  the reading of \<open>new Date()\<close>. The two longer thresholds are computed and not used, as
  in the source.
\<close>

definition getForReview :: "flashcard list \<Rightarrow> objectId \<Rightarrow> nat option \<Rightarrow> jsdate \<Rightarrow> flashcard list" where
  "getForReview coll cId limitArg now =
     (let limit = (case limitArg of None \<Rightarrow> 20 | Some l \<Rightarrow> l);
          oneDayAgo = now - 24 * 60 * 60 * 1000;
          threeDaysAgo = now - 3 * 24 * 60 * 60 * 1000;
          weekAgo = now - 7 * 24 * 60 * 60 * 1000
      in mongo_limit limit
           (sort_key reviewSortKey
              (filter (\<lambda>f. contentId f = cId \<and>
                           (mongo_lt (lastReviewed f) oneDayAgo \<or> mongo_null (lastReviewed f)))
                 coll)))"

text \<open>The due rule as the specification words it.\<close>

definition spec_due :: "jsdate \<Rightarrow> flashcard \<Rightarrow> bool" where
  "spec_due now f =
     (case lastReviewed f of None \<Rightarrow> True | Some t \<Rightarrow> t < now - 86400000)"

text \<open>
  The order of the result as the specification words it: by \<open>lastReviewed\<close> ascending
  with nulls first, then by review count ascending.
\<close>

definition spec_review_order :: "flashcard \<Rightarrow> flashcard \<Rightarrow> bool" where
  "spec_review_order f g =
     (case lastReviewed f of
        None \<Rightarrow> (case lastReviewed g of
                   None \<Rightarrow> reviewCount f \<le> reviewCount g
                 | Some t \<Rightarrow> True)
      | Some s \<Rightarrow> (case lastReviewed g of
                     None \<Rightarrow> False
                   | Some t \<Rightarrow> s < t \<or> (s = t \<and> reviewCount f \<le> reviewCount g)))"

text \<open>The flashcards of a content item that are due, in storage order.\<close>

definition dueFlashcards :: "flashcard list \<Rightarrow> objectId \<Rightarrow> jsdate \<Rightarrow> flashcard list" where
  "dueFlashcards coll cId now = filter (\<lambda>f. contentId f = cId \<and> spec_due now f) coll"

subsection \<open>Content (models/Content.ts)\<close>

datatype contentType = Document | Video | Article | Note

text \<open>
  Of the content schema, the fields the modelled operations read: the owner, the type
  tag and the stored text.
\<close>

record contentDoc =
  cid :: objectId
  userId :: objectId
  title :: string
  ctype :: contentType
  content :: ustring

text \<open>
  The virtual \<open>wordCount\<close>: \<open>content.split(/\s+/).filter(word => word.length > 0).length\<close>.
  \<open>isWhiteSpace\<close> is the class \<open>\s\<close> of ECMAScript; \<open>split_ws\<close> is
  \<open>String.prototype.split\<close> with the separator \<open>/\s+/\<close>, which cuts at every maximal
  run of white space and keeps the empty pieces at both ends.
\<close>

definition isWhiteSpace :: "codepoint \<Rightarrow> bool" where
  "isWhiteSpace c \<longleftrightarrow>
     c \<in> {9, 10, 11, 12, 13, 32, 160, 5760, 8232, 8233, 8239, 8287, 12288, 65279}
     \<or> (8192 \<le> c \<and> c \<le> 8202)"

function split_ws :: "ustring \<Rightarrow> ustring \<Rightarrow> ustring list" where
  "split_ws piece [] = [piece]"
| "split_ws piece (c # cs) =
     (if isWhiteSpace c then piece # split_ws [] (dropWhile isWhiteSpace cs)
      else split_ws (piece @ [c]) cs)"
  by pat_completeness auto
termination
  by (relation "measure (\<lambda>(piece, cs). length cs)")
     (auto simp: le_imp_less_Suc length_dropWhile_le)

definition wordCount :: "contentDoc \<Rightarrow> nat" where
  "wordCount c = length (filter (\<lambda>word. length word > 0) (split_ws [] (content c)))"

text \<open>
  The static \<open>getStats\<close>, an aggregation pipeline of three stages. \<open>$group\<close> with
  \<open>_id: null\<close> yields one group document when at least one document reaches it and no
  document at all otherwise.
\<close>

record contentGroup =
  g_totalContent :: nat
  g_totalWords :: nat
  g_byType :: "contentType list"

record contentStats =
  totalContent :: nat
  totalWords :: nat
  documentCount :: nat
  videoCount :: nat
  articleCount :: nat
  noteCount :: nat

definition match_stage :: "objectId \<Rightarrow> contentDoc list \<Rightarrow> contentDoc list" where
  "match_stage uid docs = filter (\<lambda>c. userId c = uid) docs"

definition strLenCP :: "ustring \<Rightarrow> nat" where
  "strLenCP s = length s"

definition group_stage :: "contentDoc list \<Rightarrow> contentGroup list" where
  "group_stage docs =
     (if docs = [] then []
      else [\<lparr>g_totalContent = sum_list (map (\<lambda>c. 1) docs),
             g_totalWords = sum_list (map (\<lambda>c. strLenCP (content c)) docs),
             g_byType = map ctype docs\<rparr>])"

definition project_stage :: "contentGroup list \<Rightarrow> contentStats list" where
  "project_stage groups =
     map (\<lambda>g. \<lparr>totalContent = g_totalContent g,
                totalWords = g_totalWords g,
                documentCount = length (filter (\<lambda>t. t = Document) (g_byType g)),
                videoCount = length (filter (\<lambda>t. t = Video) (g_byType g)),
                articleCount = length (filter (\<lambda>t. t = Article) (g_byType g)),
                noteCount = length (filter (\<lambda>t. t = Note) (g_byType g))\<rparr>) groups"

definition getStats :: "contentDoc list \<Rightarrow> objectId \<Rightarrow> contentStats list" where
  "getStats coll uid = project_stage (group_stage (match_stage uid coll))"

text \<open>
  The statistics as the routes report them: \<open>GET /api/user/dashboard\<close> answers with
  \<open>stats: contentStats[0] || {}\<close>, where \<open>contentStats\<close> is the result of
  \<open>Content.getStats(userId)\<close>. The handler of \<open>GET /api/content/stats\<close> has the same
  expression, \<open>stats[0] || {}\<close>, but is registered after \<open>GET /api/content/:id\<close>, which
  takes the request first. A JSON object is a finite map from field names to numbers;
  \<open>{}\<close> is the empty map.
\<close>

definition statsObject :: "contentStats \<Rightarrow> (string \<rightharpoonup> nat)" where
  "statsObject s =
     [''totalContent'' \<mapsto> totalContent s,
      ''totalWords'' \<mapsto> totalWords s,
      ''documentCount'' \<mapsto> documentCount s,
      ''videoCount'' \<mapsto> videoCount s,
      ''articleCount'' \<mapsto> articleCount s,
      ''noteCount'' \<mapsto> noteCount s]"

definition getContentStatistics :: "contentDoc list \<Rightarrow> objectId \<Rightarrow> (string \<rightharpoonup> nat)" where
  "getContentStatistics coll uid =
     (case getStats coll uid of [] \<Rightarrow> Map.empty | s # rest \<Rightarrow> statsObject s)"

text \<open>The six counters the specification lists for the statistics structure.\<close>

definition counterNames :: "string list" where
  "counterNames = [''totalContent'', ''totalWords'', ''documentCount'', ''videoCount'',
     ''articleCount'', ''noteCount'']"

subsection \<open>Numbers\<close>

text \<open>
  A JavaScript Number is an IEEE 754 binary64 value. The values that occur in the score
  are never negative, so a Number is here a rational, \<open>Infinity\<close> or \<open>NaN\<close>; negative
  zero and negative infinity do not arise.

  \<open>fl64\<close> maps a non-negative rational to the nearest value with a 53-bit significand,
  ties to the even significand; below \<open>2^-1022\<close> the spacing stays \<open>2^-1074\<close> (the
  subnormal range). \<open>binade x\<close> is the exponent \<open>k\<close> with \<open>2^k \<le> x < 2^(k+1)\<close>.
  \<open>round64\<close> is the rounding of an arithmetic result: a value that rounds to \<open>2^1024\<close>
  or more overflows to \<open>Infinity\<close>.
\<close>

datatype jsnum = Num rat | Infinity | NaN

definition binade :: "rat \<Rightarrow> int" where
  "binade x =
     (let (a, b) = quotient_of x;
          d = bitlen a - bitlen b
      in if 2 powi d \<le> x then d else d - 1)"

definition round_half_even :: "rat \<Rightarrow> int" where
  "round_half_even x =
     (let f = \<lfloor>x\<rfloor>;
          r = x - of_int f
      in if r < 1 / 2 then f
         else if 1 / 2 < r then f + 1
         else if even f then f else f + 1)"

definition ulp_exponent :: "rat \<Rightarrow> int" where
  "ulp_exponent x = max (binade x) (- 1022) - 52"

definition fl64 :: "rat \<Rightarrow> rat" where
  "fl64 x =
     (if x = 0 then 0
      else let e = ulp_exponent \<bar>x\<bar>
           in of_int (round_half_even (x / 2 powi e)) * 2 powi e)"

definition round64 :: "rat \<Rightarrow> jsnum" where
  "round64 x = (let r = fl64 x in if 2 ^ 1024 \<le> r then Infinity else Num r)"

text \<open>
  The operators \<open>+\<close>, \<open>/\<close>, \<open>*\<close> and \<open>>\<close> and \<open>Math.round\<close> on these values.
  \<open>Math.round\<close> is exact: the nearest integer, a tie going up.
\<close>

fun js_add :: "jsnum \<Rightarrow> jsnum \<Rightarrow> jsnum" where
  "js_add (Num x) (Num y) = round64 (x + y)"
| "js_add NaN y = NaN"
| "js_add x NaN = NaN"
| "js_add Infinity y = Infinity"
| "js_add x Infinity = Infinity"

fun js_div :: "jsnum \<Rightarrow> jsnum \<Rightarrow> jsnum" where
  "js_div (Num x) (Num y) =
     (if y = 0 then (if x = 0 then NaN else Infinity) else round64 (x / y))"
| "js_div NaN y = NaN"
| "js_div x NaN = NaN"
| "js_div Infinity Infinity = NaN"
| "js_div Infinity (Num y) = Infinity"
| "js_div (Num x) Infinity = Num 0"

fun js_mul :: "jsnum \<Rightarrow> jsnum \<Rightarrow> jsnum" where
  "js_mul (Num x) (Num y) = round64 (x * y)"
| "js_mul NaN y = NaN"
| "js_mul x NaN = NaN"
| "js_mul Infinity Infinity = Infinity"
| "js_mul Infinity (Num y) = (if y = 0 then NaN else Infinity)"
| "js_mul (Num x) Infinity = (if x = 0 then NaN else Infinity)"

fun js_gt :: "jsnum \<Rightarrow> jsnum \<Rightarrow> bool" where
  "js_gt (Num x) (Num y) = (y < x)"
| "js_gt NaN y = False"
| "js_gt x NaN = False"
| "js_gt Infinity Infinity = False"
| "js_gt Infinity (Num y) = True"
| "js_gt (Num x) Infinity = False"

fun Math_round :: "jsnum \<Rightarrow> jsnum" where
  "Math_round (Num x) = Num (of_int \<lfloor>x + 1 / 2\<rfloor>)"
| "Math_round Infinity = Infinity"
| "Math_round NaN = NaN"

subsection \<open>Quiz (models/Quiz.ts)\<close>

datatype questionType = multiple_choice | true_false | short_answer

text \<open>
  The four fields of a submitted answer are present in every value of this type; an
  element of the request's \<open>answers\<close> array that lacks one is not such a value.
\<close>

record quizAnswer =
  questionId :: string
  givenAnswer :: string
  isCorrect :: bool
  awardedPoints :: rat

record quizAttempt =
  attemptId :: objectId
  attemptUserId :: objectId
  score :: jsnum
  answers :: "quizAnswer list"
  completedAt :: jsdate
  timeSpent :: nat

text \<open>
  The weight \<open>points\<close> of a question is a finite Number, given by its rational value.
\<close>

record quizQuestion =
  qid :: objectId
  qtext :: string
  qtype :: questionType
  options :: "string list"
  correctAnswer :: string
  explanation :: string
  points :: rat

record quiz =
  quizId :: objectId
  quizContentId :: objectId
  quizTitle :: string
  quizDescription :: string
  questions :: "quizQuestion list"
  timeLimit :: "nat option"
  passingScore :: nat
  attempts :: "quizAttempt list"
  quizCreatedAt :: jsdate
  quizUpdatedAt :: jsdate

subsection \<open>Scoring and recording an attempt\<close>

text \<open>
  \<open>calculateScore\<close>: the \<open>forEach\<close> over the questions with its two accumulators, each
  \<open>+=\<close> a binary64 addition; \<open>answers.find\<close> returns the first submitted answer with the
  question's identifier.
\<close>

fun scoreLoop :: "quizQuestion list \<Rightarrow> quizAnswer list \<Rightarrow> jsnum \<times> jsnum \<Rightarrow> jsnum \<times> jsnum" where
  "scoreLoop [] subm (totalPoints, earnedPoints) = (totalPoints, earnedPoints)"
| "scoreLoop (qn # rest) subm (totalPoints, earnedPoints) =
     (let totalPoints' = js_add totalPoints (Num (points qn));
          found = find (\<lambda>a. questionId a = qid qn) subm;
          earnedPoints' =
            (case found of
               Some a \<Rightarrow> if isCorrect a then js_add earnedPoints (Num (points qn))
                         else earnedPoints
             | None \<Rightarrow> earnedPoints)
      in scoreLoop rest subm (totalPoints', earnedPoints'))"

definition calculateScore :: "quiz \<Rightarrow> quizAnswer list \<Rightarrow> jsnum" where
  "calculateScore qz subm =
     (let (totalPoints, earnedPoints) = scoreLoop (questions qz) subm (Num 0, Num 0)
      in if js_gt totalPoints (Num 0)
         then Math_round (js_mul (js_div earnedPoints totalPoints) (Num 100))
         else Num 0)"

text \<open>
  \<open>addAttempt\<close> builds the attempt and pushes it; \<open>newId\<close> is the fresh ObjectId and
  \<open>now\<close> the reading of \<open>new Date()\<close> for \<open>completedAt\<close>. \<open>save\<close> validates the whole
  document against the schemas and then refreshes \<open>updatedAt\<close> (the pre-save hook and
  \<open>timestamps: true\<close>) with a later reading of the clock, \<open>saveTime\<close>. The
  validators, for the fields modelled: a required \<open>String\<close> is not empty, \<open>maxlength\<close>
  bounds the length, \<open>min\<close> and \<open>max\<close> bound a Number, and \<open>NaN\<close> is no Number at all
  (the cast fails). A rejected save stores nothing and is answered with status 400.
\<close>

datatype error = NotFound | AccessDenied | ValidationError

definition pushAttempt :: "quiz \<Rightarrow> objectId \<Rightarrow> quizAnswer list \<Rightarrow> nat \<Rightarrow> objectId \<Rightarrow> jsdate \<Rightarrow> quiz" where
  "pushAttempt qz uid subm spent newId now =
     (let sc = calculateScore qz subm;
          attempt = \<lparr>attemptId = newId, attemptUserId = uid, score = sc, answers = subm,
                     completedAt = now, timeSpent = spent\<rparr>
      in qz\<lparr>attempts := attempts qz @ [attempt]\<rparr>)"

text \<open>
  \<open>quizAnswerSchema\<close>. The record follows the declared type \<open>IQuizAnswer\<close> of the
  \<open>answers\<close> parameter, whose four fields are present: \<open>required\<close> then holds of
  \<open>answer\<close> (\<open>Mixed\<close>) and \<open>isCorrect\<close> (\<open>Boolean\<close>), fails for the \<open>String\<close>
  \<open>questionId\<close> when it is empty, and \<open>points\<close> has \<open>min: 0\<close>.
\<close>

definition validateAnswer :: "quizAnswer \<Rightarrow> bool" where
  "validateAnswer a \<longleftrightarrow> questionId a \<noteq> [] \<and> 0 \<le> awardedPoints a"

text \<open>
  \<open>quizAttemptSchema\<close>: \<open>score\<close> a Number with \<open>min: 0\<close> (\<open>NaN\<close> fails the cast,
  \<open>Infinity\<close> passes), and every answer valid; \<open>userId\<close> is present and \<open>timeSpent\<close>,
  a natural number, meets its \<open>min: 0\<close>.
\<close>

definition validateScore :: "jsnum \<Rightarrow> bool" where
  "validateScore s = (case s of Num v \<Rightarrow> 0 \<le> v | Infinity \<Rightarrow> True | NaN \<Rightarrow> False)"

definition validateAttempt :: "quizAttempt \<Rightarrow> bool" where
  "validateAttempt a \<longleftrightarrow> validateScore (score a) \<and> list_all validateAnswer (answers a)"

text \<open>
  \<open>quizQuestionSchema\<close>: \<open>question\<close> required with \<open>maxlength: 1000\<close>, \<open>explanation\<close>
  with \<open>maxlength: 500\<close>, \<open>points\<close> with \<open>min: 1\<close> and no \<open>max\<close>; \<open>type\<close> is one of
  the three values of the \<open>enum\<close> and \<open>correctAnswer\<close> is present.
\<close>

definition validateQuestion :: "quizQuestion \<Rightarrow> bool" where
  "validateQuestion q \<longleftrightarrow>
     qtext q \<noteq> [] \<and> length (qtext q) \<le> 1000 \<and> length (explanation q) \<le> 500
     \<and> 1 \<le> points q"

text \<open>
  \<open>quizSchema\<close>: \<open>title\<close> required with \<open>maxlength: 200\<close>, \<open>description\<close> with
  \<open>maxlength: 500\<close>, \<open>timeLimit\<close> from 1 to 180 when present, \<open>passingScore\<close> from 0
  to 100, and every question and attempt valid.
\<close>

definition validateQuiz :: "quiz \<Rightarrow> bool" where
  "validateQuiz qz \<longleftrightarrow>
     quizTitle qz \<noteq> [] \<and> length (quizTitle qz) \<le> 200
     \<and> length (quizDescription qz) \<le> 500
     \<and> (case timeLimit qz of None \<Rightarrow> True | Some t \<Rightarrow> 1 \<le> t \<and> t \<le> 180)
     \<and> passingScore qz \<le> 100
     \<and> list_all validateQuestion (questions qz)
     \<and> list_all validateAttempt (attempts qz)"

definition saveQuiz :: "quiz \<Rightarrow> jsdate \<Rightarrow> error + quiz" where
  "saveQuiz qz saveTime =
     (if validateQuiz qz then Inr (qz\<lparr>quizUpdatedAt := saveTime\<rparr>) else Inl ValidationError)"

definition addAttempt ::
  "quiz \<Rightarrow> objectId \<Rightarrow> quizAnswer list \<Rightarrow> nat \<Rightarrow> objectId \<Rightarrow> jsdate \<Rightarrow> jsdate
     \<Rightarrow> error + quiz" where
  "addAttempt qz uid subm spent newId now saveTime =
     saveQuiz (pushAttempt qz uid subm spent newId now) saveTime"

subsection \<open>The store and the two mutating routes (routes/ai.ts)\<close>

record db =
  flashcards :: "flashcard list"
  contents :: "contentDoc list"
  quizzes :: "quiz list"

definition findFlashcardById :: "db \<Rightarrow> objectId \<Rightarrow> flashcard option" where
  "findFlashcardById st i = find (\<lambda>f. fid f = i) (flashcards st)"

definition findQuizById :: "db \<Rightarrow> objectId \<Rightarrow> quiz option" where
  "findQuizById st i = find (\<lambda>q. quizId q = i) (quizzes st)"

text \<open>\<open>Content.findOne({_id, userId})\<close>, the ownership check of both routes.\<close>

definition findOwnedContent :: "db \<Rightarrow> objectId \<Rightarrow> objectId \<Rightarrow> contentDoc option" where
  "findOwnedContent st c uid = find (\<lambda>d. cid d = c \<and> userId d = uid) (contents st)"

text \<open>
  \<open>markReviewed\<close> sets the two fields and saves. The flashcard schema has
  \<open>timestamps: true\<close>, so the save also refreshes \<open>updatedAt\<close>; the stored document
  with the same \<open>_id\<close> is replaced.
\<close>

definition storeFlashcard :: "db \<Rightarrow> flashcard \<Rightarrow> db" where
  "storeFlashcard st f =
     st\<lparr>flashcards := map (\<lambda>d. if fid d = fid f then f else d) (flashcards st)\<rparr>"

definition markReviewed :: "db \<Rightarrow> flashcard \<Rightarrow> jsdate \<Rightarrow> db \<times> flashcard" where
  "markReviewed st f now =
     (let f1 = f\<lparr>lastReviewed := Some now\<rparr>;
          f2 = f1\<lparr>reviewCount := reviewCount f1 + 1\<rparr>;
          saved = f2\<lparr>updatedAt := now\<rparr>
      in (storeFlashcard st saved, saved))"

record reviewResponse =
  r_id :: objectId
  r_reviewCount :: nat
  r_lastReviewed :: "jsdate option"
  r_masteryLevel :: mastery

text \<open>
  \<open>POST /api/ai/flashcards/:id/review\<close>. The request arrives at \<open>callTime\<close>; the clock
  is read inside \<open>markReviewed\<close>, after the two awaited lookups, \<open>elapsed\<close> milliseconds
  later.
\<close>

definition markFlashcardReviewed ::
  "db \<Rightarrow> objectId \<Rightarrow> objectId \<Rightarrow> jsdate \<Rightarrow> nat \<Rightarrow> error + db \<times> reviewResponse" where
  "markFlashcardReviewed st user i callTime elapsed =
     (case findFlashcardById st i of
        None \<Rightarrow> Inl NotFound
      | Some flashcard \<Rightarrow>
          (case findOwnedContent st (contentId flashcard) user of
             None \<Rightarrow> Inl AccessDenied
           | Some owned \<Rightarrow>
               (let (st', f) = markReviewed st flashcard (callTime + int elapsed)
                in Inr (st', \<lparr>r_id = fid f, r_reviewCount = reviewCount f,
                              r_lastReviewed = lastReviewed f,
                              r_masteryLevel = masteryLevel f\<rparr>))))"

record attemptResponse =
  r_score :: jsnum
  r_totalAttempts :: nat

definition storeQuiz :: "db \<Rightarrow> quiz \<Rightarrow> db" where
  "storeQuiz st q =
     st\<lparr>quizzes := map (\<lambda>d. if quizId d = quizId q then q else d) (quizzes st)\<rparr>"

text \<open>
  \<open>POST /api/ai/quiz/:id/attempt\<close>. The body validators accept a list of answers and a
  non-negative whole \<open>timeSpent\<close>, which the argument types already say.
\<close>

definition recordQuizAttempt ::
  "db \<Rightarrow> objectId \<Rightarrow> objectId \<Rightarrow> quizAnswer list \<Rightarrow> nat \<Rightarrow> objectId \<Rightarrow> jsdate \<Rightarrow> jsdate
     \<Rightarrow> error + db \<times> attemptResponse" where
  "recordQuizAttempt st user i subm spent newId now saveTime =
     (case findQuizById st i of
        None \<Rightarrow> Inl NotFound
      | Some qz \<Rightarrow>
          (case findOwnedContent st (quizContentId qz) user of
             None \<Rightarrow> Inl AccessDenied
           | Some owned \<Rightarrow>
               (case addAttempt qz user subm spent newId now saveTime of
                  Inl e \<Rightarrow> Inl e
                | Inr qz' \<Rightarrow>
                    Inr (storeQuiz st qz',
                         \<lparr>r_score = score (attempts qz' ! (length (attempts qz') - 1)),
                          r_totalAttempts = length (attempts qz')\<rparr>))))"

text \<open>
  The answer \<open>calculateScore\<close> consults for a question, and whether it earns the
  question's weight.
\<close>

definition matchingAnswer :: "quizAnswer list \<Rightarrow> quizQuestion \<Rightarrow> quizAnswer option" where
  "matchingAnswer subm q = find (\<lambda>a. questionId a = qid q) subm"

definition answeredCorrectly :: "quizAnswer list \<Rightarrow> quizQuestion \<Rightarrow> bool" where
  "answeredCorrectly subm q = (case matchingAnswer subm q of None \<Rightarrow> False | Some a \<Rightarrow> isCorrect a)"

text \<open>
  The two sums, added up from 0 in question order as the loop does: of all weights, and
  of the weights of the questions answered correctly.
\<close>

definition js_sum :: "rat list \<Rightarrow> jsnum" where
  "js_sum ws = foldl (\<lambda>acc w. js_add acc (Num w)) (Num 0) ws"

definition totalPointsOf :: "quiz \<Rightarrow> jsnum" where
  "totalPointsOf qz = js_sum (map points (questions qz))"

definition earnedPointsOf :: "quiz \<Rightarrow> quizAnswer list \<Rightarrow> jsnum" where
  "earnedPointsOf qz subm =
     js_sum (map points (filter (answeredCorrectly subm) (questions qz)))"

text \<open>
  A non-negative finite Number, and the relation the two accumulators of the loop keep:
  both are Numbers of that kind or \<open>Infinity\<close>, and the earned sum is not above the
  total.
\<close>

definition isDouble :: "rat \<Rightarrow> bool" where
  "isDouble x \<longleftrightarrow> 0 \<le> x \<and> fl64 x = x \<and> x < 2 ^ 1024"

fun sum_le :: "jsnum \<Rightarrow> jsnum \<Rightarrow> bool" where
  "sum_le (Num b) (Num a) = (isDouble b \<and> isDouble a \<and> b \<le> a)"
| "sum_le (Num b) Infinity = isDouble b"
| "sum_le Infinity Infinity = True"
| "sum_le e t = False"

text \<open>The schema's \<open>min: 1\<close> on every point weight.\<close>

definition validWeights :: "quiz \<Rightarrow> bool" where
  "validWeights qz \<longleftrightarrow> list_all (\<lambda>q. 1 \<le> points q) (questions qz)"

text \<open>
  The percentage in exact arithmetic, rounded as \<open>Math.round\<close> rounds a real number:
  to the nearest integer, a tie going up.
\<close>

definition exact_percent :: "rat \<Rightarrow> rat \<Rightarrow> int" where
  "exact_percent e t = \<lfloor>e / t * 100 + 1 / 2\<rfloor>"

text \<open>The quiz document as a successful \<open>addAttempt\<close> saves it.\<close>

definition savedQuiz ::
  "quiz \<Rightarrow> objectId \<Rightarrow> quizAnswer list \<Rightarrow> nat \<Rightarrow> objectId \<Rightarrow> jsdate \<Rightarrow> jsdate \<Rightarrow> quiz" where
  "savedQuiz qz uid subm spent newId now saveTime =
     (pushAttempt qz uid subm spent newId now)\<lparr>quizUpdatedAt := saveTime\<rparr>"

text \<open>
  What the validators ask of a submission: every answer passes \<open>quizAnswerSchema\<close> and
  the computed score passes the \<open>score\<close> path of \<open>quizAttemptSchema\<close>.
\<close>

definition validSubmission :: "quiz \<Rightarrow> quizAnswer list \<Rightarrow> bool" where
  "validSubmission qz subm \<longleftrightarrow>
     list_all validateAnswer subm \<and> validateScore (calculateScore qz subm)"

subsection \<open>Example documents\<close>

text \<open>Concrete documents at which the theorems below are instantiated.\<close>

definition card :: "difficulty \<Rightarrow> nat \<Rightarrow> flashcard" where
  "card d n = \<lparr>fid = ''f1'', contentId = ''c1'', question = ''q'', answer = ''a'',
     difficulty = d, tags = [], lastReviewed = None, reviewCount = n,
     createdAt = 0, updatedAt = 0\<rparr>"

definition helloNote :: contentDoc where
  "helloNote = \<lparr>cid = ''c1'', userId = ''u1'', title = ''greeting'', ctype = Note,
     content = map of_char ''hello world''\<rparr>"

definition cardB :: flashcard where
  "cardB = \<lparr>fid = ''f2'', contentId = ''c1'', question = ''q2'', answer = ''a2'',
     difficulty = medium, tags = [], lastReviewed = None, reviewCount = 0,
     createdAt = 0, updatedAt = 0\<rparr>"

definition reviewedCard :: "jsdate \<Rightarrow> flashcard" where
  "reviewedCard t = \<lparr>fid = ''f3'', contentId = ''c1'', question = ''q3'', answer = ''a3'',
     difficulty = medium, tags = [], lastReviewed = Some t, reviewCount = 1,
     createdAt = 0, updatedAt = t\<rparr>"

definition exampleDb :: db where
  "exampleDb = \<lparr>flashcards = [card easy 0, cardB], contents = [helloNote], quizzes = []\<rparr>"

definition reviewedDb :: db where
  "reviewedDb = \<lparr>flashcards =
       [(card easy 0)\<lparr>lastReviewed := Some 1005, reviewCount := 1, updatedAt := 1005\<rparr>, cardB],
     contents = [helloNote], quizzes = []\<rparr>"

definition reviewedResponse :: reviewResponse where
  "reviewedResponse = \<lparr>r_id = ''f1'', r_reviewCount = 1, r_lastReviewed = Some 1005,
     r_masteryLevel = new\<rparr>"

definition tfQuestion :: "objectId \<Rightarrow> rat \<Rightarrow> quizQuestion" where
  "tfQuestion i p = \<lparr>qid = i, qtext = ''statement'', qtype = true_false,
     options = [''true'', ''false''], correctAnswer = ''true'', explanation = '''',
     points = p\<rparr>"

definition submitted :: "objectId \<Rightarrow> bool \<Rightarrow> rat \<Rightarrow> quizAnswer" where
  "submitted i ok p = \<lparr>questionId = i, givenAnswer = (if ok then ''true'' else ''false''),
     isCorrect = ok, awardedPoints = p\<rparr>"

definition quiz13 :: quiz where
  "quiz13 = \<lparr>quizId = ''z1'', quizContentId = ''c1'', quizTitle = ''two questions'',
     quizDescription = '''', questions = [tfQuestion ''q1'' 1, tfQuestion ''q3'' 3],
     timeLimit = None,
     passingScore = 70, attempts = [], quizCreatedAt = 0, quizUpdatedAt = 0\<rparr>"

definition answersOnly3 :: "quizAnswer list" where
  "answersOnly3 = [submitted ''q3'' True 3]"

definition answersAll :: "quizAnswer list" where
  "answersAll = [submitted ''q1'' True 1, submitted ''q3'' True 3]"

definition attempt75 :: quizAttempt where
  "attempt75 = \<lparr>attemptId = ''a1'', attemptUserId = ''u1'', score = Num 75,
     answers = answersOnly3, completedAt = 5000, timeSpent = 60\<rparr>"

definition attempt100 :: quizAttempt where
  "attempt100 = \<lparr>attemptId = ''a2'', attemptUserId = ''u1'', score = Num 100,
     answers = answersAll, completedAt = 9000,
     timeSpent = 45\<rparr>"

definition quizDb :: "quizAttempt list \<Rightarrow> jsdate \<Rightarrow> db" where
  "quizDb as t = \<lparr>flashcards = [], contents = [helloNote],
     quizzes = [quiz13\<lparr>attempts := as, quizUpdatedAt := t\<rparr>]\<rparr>"

text \<open>
  A quiz with weights 23 and 17 of which the first question is answered correctly, and a
  quiz whose two weights are \<open>2^1023\<close> (about \<open>8.99e307\<close>, a finite Number) with both
  questions, and with the first question only, answered correctly.
\<close>

definition tieQuiz :: quiz where
  "tieQuiz = quiz13\<lparr>questions := [tfQuestion ''t1'' 23, tfQuestion ''t2'' 17]\<rparr>"

definition answersTie :: "quizAnswer list" where
  "answersTie = [submitted ''t1'' True 23]"

definition hugeWeight :: rat where
  "hugeWeight = 2 powi 1023"

definition hugeQuiz :: quiz where
  "hugeQuiz = quiz13\<lparr>questions := [tfQuestion ''h1'' hugeWeight, tfQuestion ''h2'' hugeWeight]\<rparr>"

definition answersHuge :: "quizAnswer list" where
  "answersHuge = [submitted ''h1'' True 1, submitted ''h2'' True 1]"

definition answersHugeOne :: "quizAnswer list" where
  "answersHugeOne = [submitted ''h1'' True 1]"

text \<open>The whole-number weight of a question.\<close>

definition wholeWeight :: "quizQuestion \<Rightarrow> nat" where
  "wholeWeight q = nat \<lfloor>points q\<rfloor>"

text \<open>A quiz without questions.\<close>

definition emptyQuiz :: quiz where
  "emptyQuiz = quiz13\<lparr>questions := []\<rparr>"

section \<open>Mastery classification\<close>

lemma difficultyMultiplier_spec: "difficultyMultiplier d = spec_multiplier d"
  by (cases d) (simp_all add: difficultyMultiplier_def)

text \<open>The bands read as thresholds on the review count, one row per difficulty.\<close>

lemma masteryLevel_thresholds:
  "masteryLevel f =
     (case difficulty f of
        easy \<Rightarrow> (if 10 \<le> reviewCount f then mastered
                 else if 5 \<le> reviewCount f then proficient
                 else if 2 \<le> reviewCount f then learning else new)
      | medium \<Rightarrow> (if 7 \<le> reviewCount f then mastered
                   else if 4 \<le> reviewCount f then proficient
                   else if 2 \<le> reviewCount f then learning else new)
      | hard \<Rightarrow> (if 5 \<le> reviewCount f then mastered
                 else if 3 \<le> reviewCount f then proficient
                 else if 1 \<le> reviewCount f then learning else new))"
proof (cases "difficulty f")
  case easy
  have "(100::rat) \<le> of_nat n * 10 \<longleftrightarrow> 10 \<le> n"
    "(50::rat) \<le> of_nat n * 10 \<longleftrightarrow> 5 \<le> n"
    "(20::rat) \<le> of_nat n * 10 \<longleftrightarrow> 2 \<le> n" for n :: nat
    by linarith+
  with easy show ?thesis
    by (simp add: masteryLevel_def difficultyMultiplier_def Let_def)
next
  case medium
  have "(100::rat) \<le> of_nat n * 10 * (3 / 2) \<longleftrightarrow> 7 \<le> n"
    "(50::rat) \<le> of_nat n * 10 * (3 / 2) \<longleftrightarrow> 4 \<le> n"
    "(20::rat) \<le> of_nat n * 10 * (3 / 2) \<longleftrightarrow> 2 \<le> n" for n :: nat
    by linarith+
  with medium show ?thesis
    by (simp add: masteryLevel_def difficultyMultiplier_def Let_def)
next
  case hard
  have "(100::rat) \<le> of_nat n * 10 * 2 \<longleftrightarrow> 5 \<le> n"
    "(50::rat) \<le> of_nat n * 10 * 2 \<longleftrightarrow> 3 \<le> n"
    "(20::rat) \<le> of_nat n * 10 * 2 \<longleftrightarrow> 1 \<le> n" for n :: nat
    by linarith+
  with hard show ?thesis
    by (simp add: masteryLevel_def difficultyMultiplier_def Let_def)
qed

text \<open>
  C8. The mastery level of a flashcard is the band of
  \<open>score = reviewCount * 10 * multiplier\<close>, with multiplier 1 for easy, 1.5 for medium
  and 2 for hard, and bands \<open>score \<ge> 100\<close> mastered, else \<open>\<ge> 50\<close> proficient, else
  \<open>\<ge> 20\<close> learning, else new. A hard card reviewed 5 times is mastered, an easy card
  reviewed 5 times is proficient.
\<close>

theorem masteryLevel_is_spec_band:
  "masteryLevel f = spec_mastery (difficulty f) (reviewCount f)
   \<and> (difficulty f = hard \<and> reviewCount f = 5 \<longrightarrow> masteryLevel f = mastered)
   \<and> (difficulty f = easy \<and> reviewCount f = 5 \<longrightarrow> masteryLevel f = proficient)"
proof (intro conjI impI)
  show "masteryLevel f = spec_mastery (difficulty f) (reviewCount f)"
    by (simp add: masteryLevel_def spec_mastery_def spec_band_def Let_def
        difficultyMultiplier_spec)
next
  assume "difficulty f = hard \<and> reviewCount f = 5"
  then show "masteryLevel f = mastered"
    by (simp add: masteryLevel_thresholds)
next
  assume "difficulty f = easy \<and> reviewCount f = 5"
  then show "masteryLevel f = proficient"
    by (simp add: masteryLevel_thresholds)
qed

theorem masteryLevel_is_spec_band_witness:
  "difficulty (card hard 5) = hard \<and> reviewCount (card hard 5) = 5
   \<and> masteryLevel (card hard 5) = mastered
   \<and> difficulty (card easy 5) = easy \<and> reviewCount (card easy 5) = 5
   \<and> masteryLevel (card easy 5) = proficient"
proof -
  have h: "difficulty (card hard 5) = hard \<and> reviewCount (card hard 5) = 5"
    by (simp add: card_def)
  have e: "difficulty (card easy 5) = easy \<and> reviewCount (card easy 5) = 5"
    by (simp add: card_def)
  from h masteryLevel_is_spec_band [of "card hard 5"]
  have "masteryLevel (card hard 5) = mastered" by blast
  moreover from e masteryLevel_is_spec_band [of "card easy 5"]
  have "masteryLevel (card easy 5) = proficient" by blast
  ultimately show ?thesis using h e by blast
qed

text \<open>
  C9. For a fixed difficulty the band never decreases when the review count increases,
  in the order \<open>new < learning < proficient < mastered\<close>.
\<close>

theorem mastery_band_monotone:
  assumes "difficulty f = difficulty g" and "reviewCount f \<le> reviewCount g"
  shows "band_rank (masteryLevel f) \<le> band_rank (masteryLevel g)"
proof (cases "difficulty g")
  case easy
  with assms show ?thesis by (simp add: masteryLevel_thresholds)
next
  case medium
  with assms show ?thesis by (simp add: masteryLevel_thresholds)
next
  case hard
  with assms show ?thesis by (simp add: masteryLevel_thresholds)
qed

theorem mastery_band_monotone_witness:
  "difficulty (card medium 3) = difficulty (card medium 7)
   \<and> reviewCount (card medium 3) \<le> reviewCount (card medium 7)
   \<and> band_rank (masteryLevel (card medium 3)) \<le> band_rank (masteryLevel (card medium 7))"
proof -
  have d: "difficulty (card medium 3) = difficulty (card medium 7)" by (simp add: card_def)
  have r: "reviewCount (card medium 3) \<le> reviewCount (card medium 7)" by (simp add: card_def)
  from mastery_band_monotone [OF d r] d r show ?thesis by simp
qed

section \<open>Content statistics\<close>

lemma getStats_empty: "match_stage uid coll = [] \<Longrightarrow> getStats coll uid = []"
  by (simp add: getStats_def group_stage_def project_stage_def)

lemma getStats_nonempty:
  assumes "match_stage uid coll \<noteq> []"
  shows "getStats coll uid =
     [\<lparr>totalContent = length (match_stage uid coll),
       totalWords = sum_list (map (\<lambda>c. length (content c)) (match_stage uid coll)),
       documentCount = length (filter (\<lambda>c. ctype c = Document) (match_stage uid coll)),
       videoCount = length (filter (\<lambda>c. ctype c = Video) (match_stage uid coll)),
       articleCount = length (filter (\<lambda>c. ctype c = Article) (match_stage uid coll)),
       noteCount = length (filter (\<lambda>c. ctype c = Note) (match_stage uid coll))\<rparr>]"
proof -
  have ones: "sum_list (map (\<lambda>c. Suc 0) xs) = length xs" for xs :: "contentDoc list"
    by (induction xs) simp_all
  from assms show ?thesis
    by (simp add: getStats_def group_stage_def project_stage_def strLenCP_def ones comp_def)
qed

text \<open>
  C1. The claim: \<open>totalWords\<close> is the sum of the word counts (white-space tokens) of
  the user's content items. The pipeline sums \<open>$strLenCP\<close> of the stored text, its
  length in code points (\<open>getStats_nonempty\<close>). For a user whose only item holds the
  text "hello world" the \<open>stats\<close> of \<open>GET /api/user/dashboard\<close> report 11, while the
  \<open>wordCount\<close> virtual of the same schema gives 2.
\<close>

theorem totalWords_is_code_point_length:
  "getContentStatistics [helloNote] ''u1'' ''totalWords'' = Some 11
   \<and> sum_list (map wordCount (match_stage ''u1'' [helloNote])) = 2"
  by (simp add: getContentStatistics_def getStats_def match_stage_def group_stage_def
      project_stage_def statsObject_def strLenCP_def helloNote_def wordCount_def
      isWhiteSpace_def)

text \<open>
  For a user who owns no content item no document reaches \<open>$group\<close>, the aggregation
  returns the empty list, and \<open>GET /api/user/dashboard\<close> answers with the fallback \<open>{}\<close>
  for \<open>stats\<close>: a value, not a failure, in which none of the six counters is present.
\<close>

lemma zero_content_empty_object:
  assumes "match_stage uid coll = []"
  shows "getContentStatistics coll uid = Map.empty
         \<and> (\<forall>k \<in> set counterNames. getContentStatistics coll uid k = None)"
  using assms by (simp add: getContentStatistics_def getStats_empty)

text \<open>
  C2. The claim: for a user without content all six counters are present and equal to 0.
  User \<open>u2\<close> owns nothing (the one stored note belongs to \<open>u1\<close>); the statistics are
  the empty object, so \<open>totalContent\<close> is absent rather than 0. The client declares the
  structure with six numeric fields (\<open>DashboardStats\<close>), and the same route fills the
  neighbouring \<open>learningProgress\<close> fallback with zeros.
\<close>

theorem zero_content_counters_absent:
  "match_stage ''u2'' [helloNote] = []
   \<and> getContentStatistics [helloNote] ''u2'' = Map.empty
   \<and> getContentStatistics [helloNote] ''u2'' ''totalContent'' = None
   \<and> getContentStatistics [helloNote] ''u2'' ''totalContent'' \<noteq> Some 0"
  by (simp add: getContentStatistics_def getStats_def match_stage_def group_stage_def
      project_stage_def helloNote_def)

section \<open>Due flashcards\<close>

lemma due_filter_eq:
  "(mongo_lt x (now - 86400000) \<or> mongo_null x)
    = (case x of None \<Rightarrow> True | Some t \<Rightarrow> t < now - 86400000)"
  by (cases x) (simp_all add: mongo_lt_def mongo_null_def)

lemma getForReview_unfold:
  "getForReview coll cId limitArg now =
     mongo_limit (case limitArg of None \<Rightarrow> 20 | Some l \<Rightarrow> l)
       (sort_key reviewSortKey (dueFlashcards coll cId now))"
  by (simp add: getForReview_def dueFlashcards_def spec_due_def due_filter_eq Let_def)

lemma reviewSortKey_le: "reviewSortKey f \<le> reviewSortKey g \<longleftrightarrow> spec_review_order f g"
  by (cases "lastReviewed f"; cases "lastReviewed g")
     (auto simp: reviewSortKey_def spec_review_order_def less_eq_prod_def)

lemma sorted_review_order:
  "sorted (map reviewSortKey xs) \<longleftrightarrow> sorted_wrt spec_review_order xs"
  by (simp add: sorted_map reviewSortKey_le)

lemma null_before_dated:
  "lastReviewed f = None \<Longrightarrow> lastReviewed g \<noteq> None \<Longrightarrow> reviewSortKey f < reviewSortKey g"
  by (cases "lastReviewed g") (auto simp: reviewSortKey_def less_prod_def)

lemma sorted_split:
  assumes "sorted (map k xs)"
    and "\<And>x y. x \<in> set xs \<Longrightarrow> y \<in> set xs \<Longrightarrow> P x \<Longrightarrow> \<not> P y \<Longrightarrow> k x < k y"
  shows "xs = filter P xs @ filter (\<lambda>x. \<not> P x) xs"
  using assms
proof (induction xs)
  case Nil
  then show ?case by simp
next
  case (Cons a xs)
  have ih: "xs = filter P xs @ filter (\<lambda>x. \<not> P x) xs"
    using Cons by simp
  show ?case
  proof (cases "P a")
    case True
    with ih show ?thesis by simp
  next
    case False
    have "\<not> P y" if "y \<in> set xs" for y
    proof
      assume "P y"
      with Cons.prems(2) [of y a] that False have "k y < k a" by simp
      moreover from Cons.prems(1) that have "k a \<le> k y" by auto
      ultimately show False by simp
    qed
    then have "filter P xs = []" "filter (\<lambda>x. \<not> P x) xs = xs"
      by (simp_all add: filter_empty_conv filter_id_conv)
    with False show ?thesis by simp
  qed
qed

lemma nulls_first:
  "sort_key reviewSortKey xs =
     sort_key reviewSortKey (filter (\<lambda>f. lastReviewed f = None) xs)
     @ sort_key reviewSortKey (filter (\<lambda>f. lastReviewed f \<noteq> None) xs)"
proof -
  let ?S = "sort_key reviewSortKey xs"
  have "?S = filter (\<lambda>f. lastReviewed f = None) ?S @ filter (\<lambda>f. \<not> lastReviewed f = None) ?S"
    by (rule sorted_split [where k = reviewSortKey]) (simp_all add: null_before_dated)
  then show ?thesis by (simp add: filter_sort)
qed


lemma null_due_filter:
  "filter (\<lambda>f. lastReviewed f = None) (dueFlashcards coll cId now)
     = filter (\<lambda>g. contentId g = cId \<and> lastReviewed g = None) coll"
  by (induction coll) (auto simp: dueFlashcards_def spec_due_def)

text \<open>
  C3, as the code has it: a flashcard of the content item whose \<open>lastReviewed\<close> is null
  appears in the result whenever the limit is at least the number of flashcards of that
  content item with null \<open>lastReviewed\<close>. Nulls sort first (\<open>nulls_first\<close>), so these
  cards fill the head of the sorted list.
\<close>

theorem null_cards_listed_within_limit:
  assumes "f \<in> set coll" and "contentId f = cId" and "lastReviewed f = None"
    and "length (filter (\<lambda>g. contentId g = cId \<and> lastReviewed g = None) coll) \<le> l"
  shows "f \<in> set (getForReview coll cId (Some l) now)"
proof -
  let ?D = "dueFlashcards coll cId now"
  let ?A = "sort_key reviewSortKey (filter (\<lambda>f. lastReviewed f = None) ?D)"
  let ?B = "sort_key reviewSortKey (filter (\<lambda>f. lastReviewed f \<noteq> None) ?D)"
  have len: "length ?A \<le> l"
    using assms(4) by (simp add: null_due_filter)
  have mem: "f \<in> set ?A"
    using assms(1-3) by (simp add: null_due_filter)
  have "l \<noteq> 0"
    using mem len by (cases ?A) auto
  then have "getForReview coll cId (Some l) now = take l (?A @ ?B)"
    using nulls_first [of ?D] by (simp add: getForReview_unfold mongo_limit_def)
  also have "\<dots> = ?A @ take (l - length ?A) ?B"
    using len by simp
  finally show ?thesis using mem by simp
qed

theorem null_cards_listed_within_limit_witness:
  "cardB \<in> set [card easy 0, cardB] \<and> contentId cardB = ''c1'' \<and> lastReviewed cardB = None
   \<and> length (filter (\<lambda>g. contentId g = ''c1'' \<and> lastReviewed g = None) [card easy 0, cardB]) \<le> 2
   \<and> cardB \<in> set (getForReview [card easy 0, cardB] ''c1'' (Some 2) 0)"
proof -
  have a: "cardB \<in> set [card easy 0, cardB]" by simp
  have b: "contentId cardB = ''c1''" by (simp add: cardB_def)
  have c: "lastReviewed cardB = None" by (simp add: cardB_def)
  have d: "length (filter (\<lambda>g. contentId g = ''c1'' \<and> lastReviewed g = None) [card easy 0, cardB]) \<le> 2"
    by (simp add: cardB_def card_def)
  from null_cards_listed_within_limit [OF a b c d] a b c d show ?thesis by blast
qed

text \<open>
  C3. The claim: a flashcard with null \<open>lastReviewed\<close> appears for every positive limit,
  also one smaller than the number of such flashcards. Two fresh cards of one content
  item and \<open>limit = 1\<close>: \<open>limit(1)\<close> returns one document, and the second card, never
  reviewed, is not in the result. (Whichever of the two the sort puts first, the other
  is cut.)
\<close>

theorem null_card_cut_by_limit:
  "lastReviewed cardB = None \<and> contentId cardB = ''c1'' \<and> (0::nat) < 1
   \<and> cardB \<in> set [card easy 0, cardB]
   \<and> getForReview [card easy 0, cardB] ''c1'' (Some 1) 0 = [card easy 0]
   \<and> cardB \<notin> set (getForReview [card easy 0, cardB] ''c1'' (Some 1) 0)"
  by (simp add: getForReview_def mongo_limit_def mongo_lt_def mongo_null_def
      reviewSortKey_def card_def cardB_def less_eq_prod_def)

text \<open>
  C4, as the code has it. With no limit (\<open>limit(0)\<close>) the result holds exactly the
  flashcards of the content item that are due, each once: \<open>lastReviewed\<close> null or
  earlier than 24 hours before \<open>now\<close>, whatever the 3-day and 7-day instants are. It is
  ordered by \<open>lastReviewed\<close> ascending, nulls first, then by review count ascending. A
  positive limit returns the first \<open>limit\<close> documents of that list, so at most
  \<open>limit\<close>; a missing limit is 20.
\<close>

theorem getForReview_contract:
  "mset (getForReview coll cId (Some 0) now) = mset (dueFlashcards coll cId now)
   \<and> sorted_wrt spec_review_order (getForReview coll cId (Some 0) now)
   \<and> (0 < l \<longrightarrow>
        getForReview coll cId (Some l) now = take l (getForReview coll cId (Some 0) now)
        \<and> length (getForReview coll cId (Some l) now) \<le> l)
   \<and> getForReview coll cId None now = getForReview coll cId (Some 20) now"
proof (intro conjI impI)
  show "mset (getForReview coll cId (Some 0) now) = mset (dueFlashcards coll cId now)"
    by (simp add: getForReview_unfold mongo_limit_def)
  have "sorted_wrt spec_review_order (sort_key reviewSortKey (dueFlashcards coll cId now))"
    by (simp only: sorted_review_order [symmetric] sorted_sort_key)
  then show "sorted_wrt spec_review_order (getForReview coll cId (Some 0) now)"
    by (simp add: getForReview_unfold mongo_limit_def)
  show "getForReview coll cId None now = getForReview coll cId (Some 20) now"
    by (simp add: getForReview_unfold)
next
  assume "0 < l"
  then show "getForReview coll cId (Some l) now = take l (getForReview coll cId (Some 0) now)"
    by (simp add: getForReview_unfold mongo_limit_def)
next
  assume "0 < l"
  then show "length (getForReview coll cId (Some l) now) \<le> l"
    by (simp add: getForReview_unfold mongo_limit_def)
qed

theorem getForReview_contract_witness:
  "(0::nat) < 1
   \<and> getForReview [reviewedCard 5, cardB] ''c1'' (Some 1) 172800000
       = take 1 (getForReview [reviewedCard 5, cardB] ''c1'' (Some 0) 172800000)
   \<and> length (getForReview [reviewedCard 5, cardB] ''c1'' (Some 1) 172800000) \<le> 1
   \<and> getForReview [reviewedCard 5, cardB] ''c1'' (Some 0) 172800000 = [cardB, reviewedCard 5]"
proof -
  have full: "getForReview [reviewedCard 5, cardB] ''c1'' (Some 0) 172800000 = [cardB, reviewedCard 5]"
    by (simp add: getForReview_def mongo_limit_def mongo_lt_def mongo_null_def
      reviewSortKey_def reviewedCard_def cardB_def less_eq_prod_def)
  from getForReview_contract [of "[reviewedCard 5, cardB]" "''c1''" 172800000 1] full
  show ?thesis by simp
qed

text \<open>
  C4. The claim: the result has at most \<open>limit\<close> elements, for every caller-supplied
  limit. The route passes \<open>parseInt(limit)\<close> on, and for \<open>limit = 0\<close> the cursor is
  unlimited: both due cards are returned.
\<close>

theorem limit_zero_returns_all:
  "getForReview [card easy 0, cardB] ''c1'' (Some 0) 0 = [card easy 0, cardB]
   \<and> \<not> length (getForReview [card easy 0, cardB] ''c1'' (Some 0) 0) \<le> 0"
  by (simp add: getForReview_def mongo_limit_def mongo_lt_def mongo_null_def
      reviewSortKey_def card_def cardB_def less_eq_prod_def)

section \<open>Lookups in the store\<close>

lemma find_key: "find (\<lambda>d. k d = i) xs = Some x \<Longrightarrow> k x = i"
  by (induction xs) (auto split: if_splits)

lemma find_replace_same:
  "find (\<lambda>d. k d = i) xs = Some x \<Longrightarrow> k y = i \<Longrightarrow>
   find (\<lambda>d. k d = i) (map (\<lambda>d. if k d = i then y else d) xs) = Some y"
  by (induction xs) (auto split: if_splits)

lemma find_replace_other:
  "j \<noteq> i \<Longrightarrow> k y = i \<Longrightarrow>
   find (\<lambda>d. k d = j) (map (\<lambda>d. if k d = i then y else d) xs) = find (\<lambda>d. k d = j) xs"
  by (induction xs) auto

section \<open>Marking a flashcard as reviewed\<close>

lemma markReviewed_eq:
  "markReviewed st f now =
     (storeFlashcard st (f\<lparr>lastReviewed := Some now, reviewCount := reviewCount f + 1, updatedAt := now\<rparr>),
      f\<lparr>lastReviewed := Some now, reviewCount := reviewCount f + 1, updatedAt := now\<rparr>)"
  by (simp add: markReviewed_def Let_def)

lemma markFlashcardReviewed_ok:
  assumes "findFlashcardById st i = Some f"
    and "findOwnedContent st (contentId f) user = Some c"
  shows "markFlashcardReviewed st user i callTime elapsed =
      Inr (storeFlashcard st (f\<lparr>lastReviewed := Some (callTime + int elapsed),
                  reviewCount := reviewCount f + 1,
                  updatedAt := callTime + int elapsed\<rparr>),
              \<lparr>r_id = i, r_reviewCount = reviewCount f + 1,
               r_lastReviewed = Some (callTime + int elapsed),
               r_masteryLevel = masteryLevel (f\<lparr>lastReviewed := Some (callTime + int elapsed),
                  reviewCount := reviewCount f + 1,
                  updatedAt := callTime + int elapsed\<rparr>)\<rparr>)"
proof -
  have k: "fid f = i"
    using assms(1) unfolding findFlashcardById_def by (rule find_key)
  show ?thesis
    unfolding markFlashcardReviewed_def assms option.case markReviewed_eq prod.case Let_def
    by (simp add: k)
qed


lemma storeFlashcard_lookup_same:
  assumes "findFlashcardById st i = Some f" and "fid g = i"
  shows "findFlashcardById (storeFlashcard st g) i = Some g"
  using assms by (simp add: findFlashcardById_def storeFlashcard_def find_replace_same)

lemma storeFlashcard_lookup_other:
  assumes "j \<noteq> fid g"
  shows "findFlashcardById (storeFlashcard st g) j = findFlashcardById st j"
  using assms by (simp add: findFlashcardById_def storeFlashcard_def find_replace_other)

lemma storeFlashcard_fields:
  "flashcards (storeFlashcard st g) = map (\<lambda>d. if fid d = fid g then g else d) (flashcards st)"
  "contents (storeFlashcard st g) = contents st"
  "quizzes (storeFlashcard st g) = quizzes st"
  by (simp_all add: storeFlashcard_def)

lemma markFlashcardReviewed_NotFound:
  "markFlashcardReviewed st user i callTime elapsed = Inl NotFound
     \<longleftrightarrow> findFlashcardById st i = None"
  by (cases "findFlashcardById st i")
     (auto simp: markFlashcardReviewed_def markReviewed_eq split: option.splits)

lemma markFlashcardReviewed_AccessDenied:
  "markFlashcardReviewed st user i callTime elapsed = Inl AccessDenied
     \<longleftrightarrow> (\<exists>f. findFlashcardById st i = Some f
             \<and> findOwnedContent st (contentId f) user = None)"
  by (cases "findFlashcardById st i")
     (auto simp: markFlashcardReviewed_def markReviewed_eq split: option.splits)

lemma markFlashcardReviewed_no_validation:
  "markFlashcardReviewed st user i callTime elapsed \<noteq> Inl ValidationError"
  by (cases "findFlashcardById st i")
     (auto simp: markFlashcardReviewed_def markReviewed_eq split: option.splits)

lemma markFlashcardReviewed_Inr:
  assumes "markFlashcardReviewed st user i callTime elapsed = Inr (st', r)"
  obtains f c where "findFlashcardById st i = Some f"
    and "findOwnedContent st (contentId f) user = Some c"
proof (cases "findFlashcardById st i")
  case None
  with assms show ?thesis by (simp add: markFlashcardReviewed_def)
next
  case (Some f)
  show ?thesis
  proof (cases "findOwnedContent st (contentId f) user")
    case None
    with assms Some show ?thesis by (simp add: markFlashcardReviewed_def)
  next
    case (Some c)
    with \<open>findFlashcardById st i = Some f\<close> that show ?thesis by blast
  qed
qed


text \<open>
  C6, as the code has it. The route fails with 404 exactly when the flashcard is not
  found and with 403 exactly when it is found and the caller does not own its parent
  content; nothing else fails. When it succeeds, the stored flashcard has its review
  count increased by exactly 1 and \<open>lastReviewed\<close> set to the clock reading, which is
  not earlier than the call; question, answer, difficulty, tags, content reference,
  identifier and creation time are unchanged, and \<open>updatedAt\<close> is refreshed by the
  save. Every other flashcard, every content item and every quiz is unchanged.
\<close>

theorem markFlashcardReviewed_effect:
  "(markFlashcardReviewed st user i callTime elapsed = Inl NotFound
      \<longleftrightarrow> findFlashcardById st i = None)
   \<and> (markFlashcardReviewed st user i callTime elapsed = Inl AccessDenied
      \<longleftrightarrow> (\<exists>f. findFlashcardById st i = Some f
              \<and> findOwnedContent st (contentId f) user = None))
   \<and> markFlashcardReviewed st user i callTime elapsed \<noteq> Inl ValidationError
   \<and> (markFlashcardReviewed st user i callTime elapsed = Inr (st', r) \<longrightarrow>
        (\<exists>f f' t. findFlashcardById st i = Some f
           \<and> findFlashcardById st' i = Some f'
           \<and> reviewCount f' = reviewCount f + 1 \<and> r_reviewCount r = reviewCount f + 1
           \<and> lastReviewed f' = Some t \<and> r_lastReviewed r = Some t \<and> callTime \<le> t
           \<and> fid f' = fid f \<and> contentId f' = contentId f \<and> question f' = question f
           \<and> answer f' = answer f \<and> difficulty f' = difficulty f \<and> tags f' = tags f
           \<and> createdAt f' = createdAt f \<and> updatedAt f' = t
           \<and> flashcards st' = map (\<lambda>d. if fid d = i then f' else d) (flashcards st)
           \<and> (\<forall>j. j \<noteq> i \<longrightarrow> findFlashcardById st' j = findFlashcardById st j)
           \<and> contents st' = contents st \<and> quizzes st' = quizzes st))"
proof (intro conjI impI)
  show "markFlashcardReviewed st user i callTime elapsed = Inl NotFound
      \<longleftrightarrow> findFlashcardById st i = None"
    by (rule markFlashcardReviewed_NotFound)
  show "markFlashcardReviewed st user i callTime elapsed = Inl AccessDenied
      \<longleftrightarrow> (\<exists>f. findFlashcardById st i = Some f
              \<and> findOwnedContent st (contentId f) user = None)"
    by (rule markFlashcardReviewed_AccessDenied)
  show "markFlashcardReviewed st user i callTime elapsed \<noteq> Inl ValidationError"
    by (rule markFlashcardReviewed_no_validation)
next
  assume res: "markFlashcardReviewed st user i callTime elapsed = Inr (st', r)"
  then obtain f c where f: "findFlashcardById st i = Some f"
    and c: "findOwnedContent st (contentId f) user = Some c"
    by (rule markFlashcardReviewed_Inr)
  define t where "t = callTime + int elapsed"
  define f' where "f' = f\<lparr>lastReviewed := Some t, reviewCount := reviewCount f + 1, updatedAt := t\<rparr>"
  have k: "fid f = i"
    using f unfolding findFlashcardById_def by (rule find_key)
  have k': "fid f' = i"
    using k by (simp add: f'_def)
  from markFlashcardReviewed_ok [OF f c, of callTime elapsed] res
  have st': "st' = storeFlashcard st f'"
    and r: "r = \<lparr>r_id = i, r_reviewCount = reviewCount f + 1, r_lastReviewed = Some t,
                 r_masteryLevel = masteryLevel f'\<rparr>"
    by (simp_all add: f'_def t_def)
  have 1: "findFlashcardById st' i = Some f'"
    unfolding st' using f k' by (rule storeFlashcard_lookup_same)
  have 2: "flashcards st' = map (\<lambda>d. if fid d = i then f' else d) (flashcards st)"
    unfolding st' by (simp add: storeFlashcard_fields k')
  have 3: "\<forall>j. j \<noteq> i \<longrightarrow> findFlashcardById st' j = findFlashcardById st j"
    unfolding st' using k' by (simp add: storeFlashcard_lookup_other)
  have 4: "contents st' = contents st" "quizzes st' = quizzes st"
    unfolding st' by (simp_all add: storeFlashcard_fields)
  have 5: "reviewCount f' = reviewCount f + 1" "lastReviewed f' = Some t" "fid f' = fid f"
    "contentId f' = contentId f" "question f' = question f" "answer f' = answer f"
    "difficulty f' = difficulty f" "tags f' = tags f" "createdAt f' = createdAt f"
    "updatedAt f' = t"
    by (simp_all add: f'_def)
  have 6: "r_reviewCount r = reviewCount f + 1" "r_lastReviewed r = Some t"
    by (simp_all add: r)
  have 7: "callTime \<le> t"
    by (simp add: t_def)
  from f 1 2 3 4 5 6 7
  show "\<exists>f f' t. findFlashcardById st i = Some f
           \<and> findFlashcardById st' i = Some f'
           \<and> reviewCount f' = reviewCount f + 1 \<and> r_reviewCount r = reviewCount f + 1
           \<and> lastReviewed f' = Some t \<and> r_lastReviewed r = Some t \<and> callTime \<le> t
           \<and> fid f' = fid f \<and> contentId f' = contentId f \<and> question f' = question f
           \<and> answer f' = answer f \<and> difficulty f' = difficulty f \<and> tags f' = tags f
           \<and> createdAt f' = createdAt f \<and> updatedAt f' = t
           \<and> flashcards st' = map (\<lambda>d. if fid d = i then f' else d) (flashcards st)
           \<and> (\<forall>j. j \<noteq> i \<longrightarrow> findFlashcardById st' j = findFlashcardById st j)
           \<and> contents st' = contents st \<and> quizzes st' = quizzes st"
    by blast
qed

text \<open>The owner \<open>u1\<close> reviews the fresh card \<open>f1\<close>, 5 ms after the request arrived.\<close>

lemma example_review:
  "markFlashcardReviewed exampleDb ''u1'' ''f1'' 1000 5 = Inr (reviewedDb, reviewedResponse)"
  by (simp add: markFlashcardReviewed_def findFlashcardById_def findOwnedContent_def
      markReviewed_eq storeFlashcard_def exampleDb_def reviewedDb_def reviewedResponse_def
      card_def cardB_def helloNote_def masteryLevel_def difficultyMultiplier_def)

theorem markFlashcardReviewed_effect_witness:
  "markFlashcardReviewed exampleDb ''u1'' ''f1'' 1000 5 = Inr (reviewedDb, reviewedResponse)
   \<and> (\<exists>f f'. findFlashcardById exampleDb ''f1'' = Some f
         \<and> findFlashcardById reviewedDb ''f1'' = Some f'
         \<and> reviewCount f' = reviewCount f + 1
         \<and> (\<exists>t. lastReviewed f' = Some t \<and> 1000 \<le> t))
   \<and> contents reviewedDb = contents exampleDb"
  using markFlashcardReviewed_effect [of exampleDb "''u1''" "''f1''" 1000 5 reviewedDb reviewedResponse]
    example_review
  by blast

text \<open>
  C6. The claim: the operation fails only when the flashcard is not found, and changes
  no attribute but the review count and \<open>lastReviewed\<close>. Flashcard \<open>f1\<close> exists, its
  content \<open>c1\<close> belongs to \<open>u1\<close>; the request of \<open>u2\<close> fails with 403 (the ownership
  check of the route). In the request of \<open>u1\<close> the save also moves \<open>updatedAt\<close> from 0
  to 1005 (\<open>timestamps: true\<close>).
\<close>

theorem review_denied_and_timestamp:
  "findFlashcardById exampleDb ''f1'' = Some (card easy 0)
   \<and> markFlashcardReviewed exampleDb ''u2'' ''f1'' 1000 5 = Inl AccessDenied
   \<and> updatedAt (card easy 0) = 0
   \<and> markFlashcardReviewed exampleDb ''u1'' ''f1'' 1000 5 =
       Inr (exampleDb\<lparr>flashcards :=
              [(card easy 0)\<lparr>lastReviewed := Some 1005, reviewCount := 1, updatedAt := 1005\<rparr>,
               cardB]\<rparr>,
            \<lparr>r_id = ''f1'', r_reviewCount = 1, r_lastReviewed = Some 1005,
             r_masteryLevel = new\<rparr>)"
  by (simp add: markFlashcardReviewed_def findFlashcardById_def findOwnedContent_def
      markReviewed_eq storeFlashcard_def exampleDb_def
      card_def cardB_def helloNote_def masteryLevel_def difficultyMultiplier_def)

section \<open>Rounding of the score arithmetic\<close>

lemma pow2_bitlen:
  assumes "0 < a"
  shows "(2::rat) powi (bitlen a - 1) \<le> of_int a" and "of_int a < (2::rat) powi (bitlen a)"
proof -
  from bitlen_bounds [OF assms]
  have lo: "2 ^ nat (bitlen a - 1) \<le> a" and hi: "a < 2 ^ nat (bitlen a)"
    by simp_all
  have pos: "1 \<le> bitlen a"
    using assms bitlen_eq_zero_iff [of a] bitlen_nonneg [of a] by linarith
  have "(2::rat) powi (bitlen a - 1) = of_int (2 ^ nat (bitlen a - 1))"
    using pos by (simp add: power_int_nonneg_exp)
  also have "\<dots> \<le> of_int a"
    using lo by (simp only: of_int_le_iff)
  finally show "(2::rat) powi (bitlen a - 1) \<le> of_int a" .
  have "(of_int a :: rat) < of_int (2 ^ nat (bitlen a))"
    using hi by (simp only: of_int_less_iff)
  also have "\<dots> = 2 powi (bitlen a)"
    using pos by (simp add: power_int_nonneg_exp)
  finally show "of_int a < (2::rat) powi (bitlen a)" .
qed

lemma binade_bounds:
  assumes "0 < x"
  shows "2 powi (binade x) \<le> x" and "x < 2 powi (binade x + 1)"
proof -
  obtain a b where ab: "quotient_of x = (a, b)"
    by (cases "quotient_of x")
  have b: "0 < b"
    using ab by (rule quotient_of_denom_pos)
  have x: "x = of_int a / of_int b"
    using ab by (rule quotient_of_div)
  have a: "0 < a"
    using assms b x by (simp add: zero_less_divide_iff)
  define d where "d = bitlen a - bitlen b"
  note A = pow2_bitlen [OF a] and B = pow2_bitlen [OF b]
  have bpos: "(0::rat) < of_int b" and apos: "(0::rat) < of_int a"
    using a b by simp_all
  have "(2::rat) powi (d - 1) = 2 powi (bitlen a - 1) / 2 powi (bitlen b)"
    by (simp add: d_def power_int_diff [symmetric] algebra_simps)
  also have "\<dots> \<le> of_int a / 2 powi (bitlen b)"
    using A(1) by (simp add: divide_right_mono)
  also have "\<dots> < of_int a / of_int b"
    using B(2) apos bpos by (simp add: divide_strict_left_mono)
  finally have lo: "2 powi (d - 1) < x"
    by (simp add: x)
  have "x < 2 powi (bitlen a) / of_int b"
    unfolding x using A(2) bpos by (simp add: divide_strict_right_mono)
  also have "\<dots> \<le> 2 powi (bitlen a) / 2 powi (bitlen b - 1)"
    using B(1) bpos by (intro divide_left_mono mult_pos_pos) simp_all
  also have "\<dots> = 2 powi (d + 1)"
    by (simp add: d_def power_int_diff [symmetric] algebra_simps)
  finally have hi: "x < 2 powi (d + 1)" .
  have bin: "binade x = (if 2 powi d \<le> x then d else d - 1)"
    by (simp add: binade_def ab d_def)
  show "2 powi (binade x) \<le> x"
    using lo by (simp add: bin)
  show "x < 2 powi (binade x + 1)"
    using hi by (simp add: bin not_le)
qed


lemma binade_le:
  assumes "0 < x" and "x < 2 powi (k + 1)"
  shows "binade x \<le> k"
proof (rule ccontr)
  assume "\<not> binade x \<le> k"
  then have "k + 1 \<le> binade x" by simp
  then have "(2::rat) powi (k + 1) \<le> 2 powi (binade x)"
    by (intro power_int_increasing) simp_all
  also have "\<dots> \<le> x"
    using assms(1) by (rule binade_bounds)
  finally show False using assms(2) by simp
qed

lemma round_half_even_cases:
  "round_half_even z = \<lfloor>z\<rfloor> \<or> round_half_even z = \<lfloor>z\<rfloor> + 1"
  by (simp add: round_half_even_def Let_def)

lemma round_half_even_error: "\<bar>of_int (round_half_even z) - z\<bar> \<le> 1 / 2"
proof -
  have "of_int \<lfloor>z\<rfloor> \<le> z" "z < of_int \<lfloor>z\<rfloor> + 1"
    by linarith+
  then show ?thesis
    by (auto simp: round_half_even_def Let_def abs_le_iff)
qed

lemma round_half_even_le:
  assumes "z \<le> of_int n"
  shows "round_half_even z \<le> n"
proof -
  have "of_int (round_half_even z) \<le> z + 1 / 2"
    using round_half_even_error [of z] by linarith
  also have "\<dots> < of_int n + 1"
    using assms by simp
  finally have "(of_int (round_half_even z) :: rat) < of_int (n + 1)"
    by simp
  then have "round_half_even z < n + 1"
    by (simp only: of_int_less_iff)
  then show ?thesis by simp
qed

lemma round_half_even_ge:
  assumes "of_int n \<le> z"
  shows "n \<le> round_half_even z"
proof -
  have "of_int n - 1 < z - 1 / 2"
    using assms by simp
  also have "\<dots> \<le> of_int (round_half_even z)"
    using round_half_even_error [of z] by linarith
  finally have "(of_int (n - 1) :: rat) < of_int (round_half_even z)"
    by simp
  then have "n - 1 < round_half_even z"
    by (simp only: of_int_less_iff)
  then show ?thesis by simp
qed

lemma round_half_even_of_int: "round_half_even (of_int n) = n"
  by (simp add: round_half_even_def)

lemma round_half_even_mono:
  assumes "a \<le> b"
  shows "round_half_even a \<le> round_half_even b"
proof (cases "\<lfloor>a\<rfloor> = \<lfloor>b\<rfloor>")
  case True
  with assms show ?thesis
    by (auto simp: round_half_even_def Let_def)
next
  case False
  with assms have "\<lfloor>a\<rfloor> < \<lfloor>b\<rfloor>"
    using floor_mono [of a b] by linarith
  moreover have "round_half_even a \<le> \<lfloor>a\<rfloor> + 1"
    using round_half_even_cases [of a] by auto
  moreover have "\<lfloor>b\<rfloor> \<le> round_half_even b"
    using round_half_even_cases [of b] by auto
  ultimately show ?thesis by linarith
qed

lemma binade_mono:
  assumes "0 < x" and "x \<le> y"
  shows "binade x \<le> binade y"
proof -
  have "0 < y" using assms by simp
  then have "y < 2 powi (binade y + 1)" by (rule binade_bounds)
  with assms(2) have "x < 2 powi (binade y + 1)" by simp
  with assms(1) show ?thesis by (rule binade_le)
qed

lemma ulp_exponent_mono:
  assumes "0 < x" and "x \<le> y"
  shows "ulp_exponent x \<le> ulp_exponent y"
  using binade_mono [OF assms] by (simp add: ulp_exponent_def)

lemma fl64_pos_unfold:
  assumes "0 < x"
  shows "fl64 x = of_int (round_half_even (x / 2 powi (ulp_exponent x))) * 2 powi (ulp_exponent x)"
  using assms by (simp add: fl64_def Let_def)

lemma fl64_nonneg:
  assumes "0 \<le> x"
  shows "0 \<le> fl64 x"
proof (cases "x = 0")
  case True
  then show ?thesis by (simp add: fl64_def)
next
  case False
  with assms have pos: "0 < x" by simp
  have "(of_int 0 :: rat) \<le> x / 2 powi (ulp_exponent x)"
    using pos by simp
  then have "0 \<le> round_half_even (x / 2 powi (ulp_exponent x))"
    by (rule round_half_even_ge)
  then show ?thesis
    by (simp add: fl64_pos_unfold [OF pos])
qed

text \<open>
  A multiple of \<open>2^j\<close> is a multiple of the spacing at \<open>x\<close> when \<open>j\<close> is not below the
  exponent of that spacing; rounding \<open>x\<close> never passes it.
\<close>

lemma multiple_of_ulp:
  assumes "e \<le> j"
  shows "of_int n * 2 powi j = (of_int (n * 2 ^ nat (j - e)) :: rat) * 2 powi e"
proof -
  have "(2::rat) powi j = 2 powi ((j - e) + e)"
    by simp
  also have "\<dots> = 2 powi (j - e) * 2 powi e"
    by (rule power_int_add) simp
  also have "2 powi (j - e) = (2::rat) ^ nat (j - e)"
    using assms by (simp add: power_int_nonneg_exp)
  finally show ?thesis by simp
qed

lemma fl64_le_multiple:
  assumes "0 < x" and "x \<le> of_int n * 2 powi j" and "ulp_exponent x \<le> j"
  shows "fl64 x \<le> of_int n * 2 powi j"
proof -
  define u :: rat where "u = 2 powi (ulp_exponent x)"
  define m where "m = n * 2 ^ nat (j - ulp_exponent x)"
  have upos: "0 < u" by (simp add: u_def)
  have c: "of_int n * 2 powi j = of_int m * u"
    unfolding u_def m_def using assms(3) by (rule multiple_of_ulp)
  have "x / u \<le> of_int m"
    using assms(2) upos by (simp add: c pos_divide_le_eq)
  then have "round_half_even (x / u) \<le> m"
    by (rule round_half_even_le)
  then have "(of_int (round_half_even (x / u)) :: rat) \<le> of_int m"
    by (simp only: of_int_le_iff)
  then have "of_int (round_half_even (x / u)) * u \<le> of_int m * u"
    using upos by (rule mult_right_mono [OF _ less_imp_le])
  then show ?thesis
    unfolding c by (simp only: fl64_pos_unfold [OF assms(1)] u_def)
qed

lemma fl64_ge_multiple:
  assumes "0 < x" and "of_int n * 2 powi j \<le> x" and "ulp_exponent x \<le> j"
  shows "of_int n * 2 powi j \<le> fl64 x"
proof -
  define u :: rat where "u = 2 powi (ulp_exponent x)"
  define m where "m = n * 2 ^ nat (j - ulp_exponent x)"
  have upos: "0 < u" by (simp add: u_def)
  have c: "of_int n * 2 powi j = of_int m * u"
    unfolding u_def m_def using assms(3) by (rule multiple_of_ulp)
  have "of_int m \<le> x / u"
    using assms(2) upos by (simp add: c pos_le_divide_eq)
  then have "m \<le> round_half_even (x / u)"
    by (rule round_half_even_ge)
  then have "(of_int m :: rat) \<le> of_int (round_half_even (x / u))"
    by (simp only: of_int_le_iff)
  then have "of_int m * u \<le> of_int (round_half_even (x / u)) * u"
    using upos by (rule mult_right_mono [OF _ less_imp_le])
  then show ?thesis
    unfolding c by (simp only: fl64_pos_unfold [OF assms(1)] u_def)
qed

lemma fl64_exact:
  assumes "0 < x" and "x = of_int n * 2 powi j" and "ulp_exponent x \<le> j"
  shows "fl64 x = x"
proof (rule antisym)
  show "fl64 x \<le> x"
    using fl64_le_multiple [OF assms(1) _ assms(3), of n] assms(2) by simp
  show "x \<le> fl64 x"
    using fl64_ge_multiple [OF assms(1) _ assms(3), of n] assms(2) by simp
qed


lemma ulp_exponent_le:
  assumes "0 < x" and "x < 2 powi (k + 1)" and "- 1022 \<le> k"
  shows "ulp_exponent x \<le> k - 52"
  using binade_le [OF assms(1,2)] assms(3) by (simp add: ulp_exponent_def)

lemma fl64_mono:
  assumes "0 \<le> x" and "x \<le> y"
  shows "fl64 x \<le> fl64 y"
proof (cases "x = 0")
  case True
  with assms show ?thesis
    using fl64_nonneg [of y] by (simp add: fl64_def)
next
  case False
  with assms have x: "0 < x" and y: "0 < y" by simp_all
  show ?thesis
  proof (cases "ulp_exponent x = ulp_exponent y")
    case True
    define u :: rat where "u = 2 powi (ulp_exponent y)"
    have upos: "0 < u" by (simp add: u_def)
    have "x / u \<le> y / u"
      using assms(2) upos by (simp add: divide_right_mono)
    then have "round_half_even (x / u) \<le> round_half_even (y / u)"
      by (rule round_half_even_mono)
    then have "(of_int (round_half_even (x / u)) :: rat) \<le> of_int (round_half_even (y / u))"
      by (simp only: of_int_le_iff)
    then have "of_int (round_half_even (x / u)) * u \<le> of_int (round_half_even (y / u)) * u"
      using upos by (rule mult_right_mono [OF _ less_imp_le])
    then show ?thesis
      by (simp only: fl64_pos_unfold [OF x] fl64_pos_unfold [OF y] True u_def)
  next
    case False
    with ulp_exponent_mono [OF x assms(2)] have lt: "ulp_exponent x < ulp_exponent y"
      by simp
    then have b: "binade x < binade y" and n: "- 1022 < binade y"
      by (simp_all add: ulp_exponent_def max_def split: if_splits)
    define P :: rat where "P = of_int 1 * 2 powi (binade y)"
    have "x < 2 powi (binade x + 1)"
      using x by (rule binade_bounds)
    also have "\<dots> \<le> 2 powi (binade y)"
      using b by (intro power_int_increasing) simp_all
    finally have xP: "x \<le> P" by (simp add: P_def)
    have Py: "P \<le> y"
      using binade_bounds(1) [OF y] by (simp add: P_def)
    have "ulp_exponent x \<le> binade y"
      using b n by (simp add: ulp_exponent_def)
    with x xP have "fl64 x \<le> P"
      unfolding P_def by (intro fl64_le_multiple)
    moreover have "ulp_exponent y \<le> binade y"
      using n by (simp add: ulp_exponent_def)
    with y Py have "P \<le> fl64 y"
      unfolding P_def by (intro fl64_ge_multiple)
    ultimately show ?thesis by simp
  qed
qed

lemma fl64_idem:
  assumes "0 \<le> y"
  shows "fl64 (fl64 y) = fl64 y"
proof (cases "fl64 y = 0")
  case True
  then show ?thesis by (simp add: fl64_def)
next
  case False
  with fl64_nonneg [OF assms] have r: "0 < fl64 y" by simp
  from False have "y \<noteq> 0" by (auto simp: fl64_def)
  with assms have y: "0 < y" by simp
  define e where "e = ulp_exponent y"
  define n where "n = round_half_even (y / 2 powi e)"
  have rn: "fl64 y = of_int n * 2 powi e"
    by (simp add: fl64_pos_unfold [OF y] n_def e_def)
  define k where "k = max (binade y) (- 1022)"
  have ek: "e = k - 52" by (simp add: e_def k_def ulp_exponent_def)
  define P :: rat where "P = of_int 1 * 2 powi (k + 1)"
  have "y < 2 powi (binade y + 1)"
    using y by (rule binade_bounds)
  also have "\<dots> \<le> 2 powi (k + 1)"
    by (intro power_int_increasing) (simp_all add: k_def)
  finally have yP: "y \<le> P" by (simp add: P_def)
  have "ulp_exponent y \<le> k + 1"
    by (simp add: ulp_exponent_def k_def)
  with y yP have rP: "fl64 y \<le> P"
    unfolding P_def by (intro fl64_le_multiple)
  show ?thesis
  proof (cases "fl64 y = P")
    case True
    have "P < 2 powi ((k + 1) + 1)"
      unfolding P_def by (simp add: power_int_strict_increasing)
    moreover have "0 < P" by (simp add: P_def)
    moreover have "- 1022 \<le> k + 1" by (simp add: k_def)
    ultimately have "ulp_exponent P \<le> (k + 1) - 52"
      by (intro ulp_exponent_le)
    then have "ulp_exponent P \<le> k + 1" by simp
    with \<open>0 < P\<close> have "fl64 P = P"
      unfolding P_def by (intro fl64_exact [where n = 1]) simp_all
    with True show ?thesis by simp
  next
    case False
    with rP have "fl64 y < 2 powi (k + 1)" by (simp add: P_def)
    moreover have "- 1022 \<le> k" by (simp add: k_def)
    ultimately have "ulp_exponent (fl64 y) \<le> k - 52"
      using r by (intro ulp_exponent_le)
    then have "ulp_exponent (fl64 y) \<le> e" by (simp add: ek)
    with r rn show ?thesis
      by (intro fl64_exact [where n = n and j = e])
  qed
qed

text \<open>Whole numbers up to \<open>2^53\<close> are representable, and rounding never passes one.\<close>

lemma fl64_of_int:
  assumes "0 \<le> n" and "n \<le> 2 ^ 53"
  shows "fl64 (of_int n) = of_int n"
proof (cases "n = 0")
  case True
  then show ?thesis by (simp add: fl64_def)
next
  case False
  with assms have pos: "(0::rat) < of_int n" by simp
  show ?thesis
  proof (cases "n = 2 ^ 53")
    case True
    have "(0::rat) < 2 powi 53" by simp
    moreover have "(2::rat) powi 53 = of_int 1 * 2 powi 53" by simp
    moreover have "ulp_exponent (2 powi 53) \<le> 53 - 52"
      by (intro ulp_exponent_le) simp_all
    then have "ulp_exponent (2 powi 53) \<le> 53" by simp
    ultimately have "fl64 (2 powi 53) = 2 powi 53"
      by (rule fl64_exact)
    with True show ?thesis by simp
  next
    case False
    with assms have "n < 2 ^ 53" by simp
    then have "(of_int n :: rat) < of_int (2 ^ 53)"
      by (simp only: of_int_less_iff)
    then have "(of_int n :: rat) < 2 powi (52 + 1)" by simp
    with pos have "ulp_exponent (of_int n) \<le> 52 - 52"
      by (intro ulp_exponent_le) simp_all
    with pos show ?thesis
      by (intro fl64_exact [where n = n and j = 0]) simp_all
  qed
qed

lemma fl64_le_int:
  assumes "0 \<le> x" and "x \<le> of_int n" and "n \<le> 2 ^ 53"
  shows "fl64 x \<le> of_int n"
proof -
  have "0 \<le> n"
    using assms(1,2) by (metis of_int_0_le_iff order_trans)
  then have "fl64 (of_int n) = of_int n"
    using assms(3) by (rule fl64_of_int)
  with fl64_mono [OF assms(1,2)] show ?thesis by simp
qed

lemma fl64_error:
  assumes "0 \<le> x" and "x < 2 powi (k + 1)" and "- 1022 \<le> k"
  shows "\<bar>fl64 x - x\<bar> \<le> 2 powi (k - 53)"
proof (cases "x = 0")
  case True
  then show ?thesis by (simp add: fl64_def)
next
  case False
  with assms have pos: "0 < x" by simp
  define u :: rat where "u = 2 powi (ulp_exponent x)"
  have upos: "0 < u" by (simp add: u_def)
  have b: "ulp_exponent x \<le> k - 52"
    using pos assms(2,3) by (rule ulp_exponent_le)
  have "fl64 x - x = (of_int (round_half_even (x / u)) - x / u) * u"
    using upos by (simp add: fl64_pos_unfold [OF pos] u_def algebra_simps)
  then have "\<bar>fl64 x - x\<bar> = \<bar>of_int (round_half_even (x / u)) - x / u\<bar> * u"
    using upos by (simp add: abs_mult)
  also have "\<dots> \<le> (1 / 2) * u"
    using round_half_even_error [of "x / u"] upos by (intro mult_right_mono) simp_all
  also have "\<dots> = 2 powi (ulp_exponent x - 1)"
    by (simp add: u_def power_int_diff)
  also have "\<dots> \<le> 2 powi (k - 53)"
    using b by (intro power_int_increasing) simp_all
  finally show ?thesis .
qed

section \<open>The two sums and the range of the score\<close>

lemma round64_cases:
  assumes "0 \<le> x"
  shows "round64 x = Infinity \<and> 2 ^ 1024 \<le> fl64 x
       \<or> round64 x = Num (fl64 x) \<and> isDouble (fl64 x)"
  using assms fl64_nonneg [OF assms] fl64_idem [OF assms]
  by (simp add: round64_def isDouble_def Let_def not_le)

lemma isDouble_0: "isDouble 0"
  by (simp add: isDouble_def fl64_def)

lemma sum_le_step_both:
  assumes "sum_le e t" and "0 \<le> p"
  shows "sum_le (js_add e (Num p)) (js_add t (Num p))"
proof (cases e)
  case (Num b)
  note e = this
  show ?thesis
  proof (cases t)
    case (Num a)
    with e assms have b: "0 \<le> b" and ba: "b \<le> a"
      by (simp_all add: isDouble_def)
    have m: "fl64 (b + p) \<le> fl64 (a + p)"
      using b ba assms(2) by (intro fl64_mono) simp_all
    from round64_cases [of "b + p"] round64_cases [of "a + p"] b ba assms(2) m
    show ?thesis
      by (auto simp: e Num isDouble_def)
  next
    case Infinity
    from round64_cases [of "b + p"] e assms
    show ?thesis by (auto simp: Infinity isDouble_def)
  next
    case NaN
    with e assms show ?thesis by simp
  qed
next
  case Infinity
  with assms show ?thesis by (cases t) simp_all
next
  case NaN
  with assms show ?thesis by (cases t) simp_all
qed

lemma sum_le_step_total:
  assumes "sum_le e t" and "0 \<le> p"
  shows "sum_le e (js_add t (Num p))"
proof (cases e)
  case (Num b)
  note e = this
  show ?thesis
  proof (cases t)
    case (Num a)
    with e assms have b: "isDouble b" and ba: "b \<le> a"
      by simp_all
    have "fl64 b \<le> fl64 (a + p)"
      using b ba assms(2) by (intro fl64_mono) (simp_all add: isDouble_def)
    then have m: "b \<le> fl64 (a + p)"
      using b by (simp add: isDouble_def)
    from round64_cases [of "a + p"] b ba assms(2) m
    show ?thesis
      by (auto simp: e Num isDouble_def)
  next
    case Infinity
    with e assms show ?thesis by simp
  next
    case NaN
    with e assms show ?thesis by simp
  qed
next
  case Infinity
  with assms show ?thesis by (cases t) simp_all
next
  case NaN
  with assms show ?thesis by (cases t) simp_all
qed

lemma sum_le_foldl:
  assumes "sum_le e t" and "list_all (\<lambda>q. 0 \<le> f q) qs"
  shows "sum_le (foldl (\<lambda>acc w. js_add acc (Num w)) e (map f (filter P qs)))
                (foldl (\<lambda>acc w. js_add acc (Num w)) t (map f qs))"
  using assms
proof (induction qs arbitrary: e t)
  case Nil
  then show ?case by simp
next
  case (Cons q qs)
  show ?case
  proof (cases "P q")
    case True
    have "sum_le (js_add e (Num (f q))) (js_add t (Num (f q)))"
      using Cons.prems by (intro sum_le_step_both) simp_all
    from Cons.IH [OF this] Cons.prems show ?thesis
      by (simp add: True)
  next
    case False
    have "sum_le e (js_add t (Num (f q)))"
      using Cons.prems by (intro sum_le_step_total) simp_all
    from Cons.IH [OF this] Cons.prems show ?thesis
      by (simp add: False)
  qed
qed

lemma sums_ordered:
  assumes "validWeights qz"
  shows "sum_le (earnedPointsOf qz subm) (totalPointsOf qz)"
proof -
  have "list_all (\<lambda>q. 0 \<le> points q) (questions qz)"
    using assms by (auto simp: validWeights_def list_all_iff)
  moreover have "sum_le (Num 0) (Num 0)"
    by (simp add: isDouble_0)
  ultimately show ?thesis
    unfolding earnedPointsOf_def totalPointsOf_def js_sum_def by (intro sum_le_foldl)
qed

text \<open>The loop computes the two sums.\<close>

lemma scoreLoop_sums:
  "scoreLoop qs subm (t, e) =
     (foldl (\<lambda>acc w. js_add acc (Num w)) t (map points qs),
      foldl (\<lambda>acc w. js_add acc (Num w)) e (map points (filter (answeredCorrectly subm) qs)))"
  by (induction qs arbitrary: t e)
     (simp_all add: answeredCorrectly_def matchingAnswer_def Let_def split: option.splits)

lemma calculateScore_sums:
  "calculateScore qz subm =
     (if js_gt (totalPointsOf qz) (Num 0)
      then Math_round (js_mul (js_div (earnedPointsOf qz subm) (totalPointsOf qz)) (Num 100))
      else Num 0)"
  by (simp add: calculateScore_def scoreLoop_sums totalPointsOf_def earnedPointsOf_def
      js_sum_def)

lemma round64_bounded:
  assumes "0 \<le> x" and "x \<le> of_int n" and "n \<le> 2 ^ 53"
  shows "round64 x = Num (fl64 x) \<and> 0 \<le> fl64 x \<and> fl64 x \<le> of_int n"
proof -
  have le: "fl64 x \<le> of_int n"
    using assms by (rule fl64_le_int)
  have "(of_int n :: rat) \<le> of_int (2 ^ 53)"
    using assms(3) by (simp only: of_int_le_iff)
  also have "\<dots> < 2 ^ 1024"
    by simp
  finally have "fl64 x < 2 ^ 1024"
    using le by simp
  with le fl64_nonneg [OF assms(1)] show ?thesis
    by (simp add: round64_def Let_def)
qed

lemma percent_of_doubles:
  assumes "0 \<le> b" and "b \<le> a" and "0 < a"
  shows "\<exists>n. Math_round (js_mul (js_div (Num b) (Num a)) (Num 100)) = Num (of_int n)
           \<and> 0 \<le> n \<and> n \<le> 100"
proof -
  have "0 \<le> b / a" "b / a \<le> of_int 1"
    using assms by (simp_all add: divide_le_eq)
  then have q: "round64 (b / a) = Num (fl64 (b / a))" "0 \<le> fl64 (b / a)"
    "fl64 (b / a) \<le> of_int 1"
    using round64_bounded [of "b / a" 1] by simp_all
  define q where "q = fl64 (b / a)"
  have "0 \<le> q * 100" "q * 100 \<le> of_int 100"
    using q(2,3) by (simp_all add: q_def)
  then have p: "round64 (q * 100) = Num (fl64 (q * 100))" "0 \<le> fl64 (q * 100)"
    "fl64 (q * 100) \<le> of_int 100"
    using round64_bounded [of "q * 100" 100] by simp_all
  define n where "n = \<lfloor>fl64 (q * 100) + 1 / 2\<rfloor>"
  have "0 \<le> n" "n \<le> 100"
    using p(2,3) unfolding n_def by (simp_all add: le_floor_iff floor_le_iff)
  moreover have "Math_round (js_mul (js_div (Num b) (Num a)) (Num 100)) = Num (of_int n)"
    using assms(3) q(1) p(1) by (simp add: q_def n_def)
  ultimately show ?thesis by blast
qed

lemma Math_round_of_int: "Math_round (Num (of_int n)) = Num (of_int n)"
proof -
  have "\<lfloor>rat_of_int n + 1 / 2\<rfloor> = n"
    by (rule floor_unique) simp_all
  then show ?thesis by simp
qed

lemma score_of_sums:
  assumes "sum_le e t"
  defines "s \<equiv> (if js_gt t (Num 0) then Math_round (js_mul (js_div e t) (Num 100)) else Num 0)"
  shows "(e = Infinity \<and> s = NaN)
       \<or> (e \<noteq> Infinity \<and> (\<exists>n. s = Num (of_int n) \<and> 0 \<le> n \<and> n \<le> 100))"
proof (cases e)
  case (Num b)
  note e = this
  show ?thesis
  proof (cases t)
    case (Num a)
    with e assms(1) have b: "0 \<le> b" "b \<le> a"
      by (simp_all add: isDouble_def)
    show ?thesis
    proof (cases "0 < a")
      case True
      from percent_of_doubles [OF b True] True show ?thesis
        by (simp add: s_def e Num)
    next
      case False
      have "Num 0 = Num (of_int 0)" by simp
      with False show ?thesis
        by (auto simp: s_def e Num)
    qed
  next
    case Infinity
    have "round64 0 = Num 0"
      by (simp add: round64_def fl64_def)
    moreover have "Math_round (Num 0) = Num (of_int 0)"
      using Math_round_of_int [of 0] by simp
    ultimately show ?thesis
      by (auto simp: s_def e Infinity simp del: Math_round.simps)
  next
    case NaN
    with e assms(1) show ?thesis by simp
  qed
next
  case Infinity
  with assms(1) have "t = Infinity" by (cases t) simp_all
  with Infinity show ?thesis by (simp add: s_def)
next
  case NaN
  with assms(1) show ?thesis by (cases t) simp_all
qed

section \<open>Exact sums and values of the score\<close>

lemma round64_of_nat:
  assumes "n \<le> 2 ^ 53"
  shows "round64 (of_nat n) = Num (of_nat n)"
proof -
  have "int n \<le> 2 ^ 53"
    using assms by (metis of_nat_le_iff of_nat_numeral of_nat_power)
  then have "fl64 (of_int (int n)) = of_int (int n)"
    by (intro fl64_of_int) simp_all
  moreover have "round64 (of_int (int n)) = Num (fl64 (of_int (int n)))"
    using \<open>int n \<le> 2 ^ 53\<close> round64_bounded [of "of_int (int n)" "int n"] by simp
  ultimately show ?thesis by simp
qed

lemma foldl_add_exact:
  assumes "a + sum_list ns \<le> 2 ^ 53"
  shows "foldl (\<lambda>acc w. js_add acc (Num w)) (Num (of_nat a)) (map of_nat ns)
           = Num (of_nat (a + sum_list ns))"
  using assms
proof (induction ns arbitrary: a)
  case Nil
  then show ?case by simp
next
  case (Cons n ns)
  have "a + n \<le> 2 ^ 53"
    using Cons.prems by simp
  then have "js_add (Num (of_nat a)) (Num (of_nat n)) = Num (of_nat (a + n))"
    using round64_of_nat [of "a + n"] by simp
  moreover have "(a + n) + sum_list ns \<le> 2 ^ 53"
    using Cons.prems by simp
  ultimately show ?case
    using Cons.IH [of "a + n"] by (simp add: add.assoc)
qed

lemma js_sum_exact:
  assumes "sum_list ns \<le> 2 ^ 53"
  shows "js_sum (map of_nat ns) = Num (of_nat (sum_list ns))"
  using foldl_add_exact [of 0 ns] assms by (simp add: js_sum_def)

lemma percent_value:
  assumes "0 \<le> b" and "b \<le> a" and "0 < a"
  shows "Math_round (js_mul (js_div (Num b) (Num a)) (Num 100))
           = Num (of_int \<lfloor>fl64 (fl64 (b / a) * 100) + 1 / 2\<rfloor>)"
proof -
  have "0 \<le> b / a" "b / a \<le> of_int 1"
    using assms by (simp_all add: divide_le_eq)
  then have q: "round64 (b / a) = Num (fl64 (b / a))" "0 \<le> fl64 (b / a)"
    "fl64 (b / a) \<le> of_int 1"
    using round64_bounded [of "b / a" 1] by simp_all
  then have "0 \<le> fl64 (b / a) * 100" "fl64 (b / a) * 100 \<le> of_int 100"
    by simp_all
  then have "round64 (fl64 (b / a) * 100) = Num (fl64 (fl64 (b / a) * 100))"
    using round64_bounded [of "fl64 (b / a) * 100" 100] by simp
  with q(1) assms(3) show ?thesis by simp
qed

lemma score_3_of_4: "Math_round (js_mul (js_div (Num 3) (Num 4)) (Num 100)) = Num 75"
proof -
  have "\<lfloor>fl64 (fl64 (3 / 4) * 100) + 1 / 2\<rfloor> = 75"
    by code_simp
  with percent_value [of 3 4] show ?thesis by simp
qed

lemma score_23_of_40: "Math_round (js_mul (js_div (Num 23) (Num 40)) (Num 100)) = Num 57"
proof -
  have "\<lfloor>fl64 (fl64 (23 / 40) * 100) + 1 / 2\<rfloor> = 57"
    by code_simp
  with percent_value [of 23 40] show ?thesis by simp
qed

lemma exact_23_of_40: "exact_percent 23 40 = 58"
  by (simp add: exact_percent_def)

lemma score_all_of:
  assumes "0 < a"
  shows "Math_round (js_mul (js_div (Num a) (Num a)) (Num 100)) = Num 100"
proof -
  have "fl64 (of_int 1) = of_int 1" "fl64 (of_int 100) = of_int 100"
    by (intro fl64_of_int; simp)+
  then have "\<lfloor>fl64 (fl64 (a / a) * 100) + 1 / 2\<rfloor> = 100"
    using assms Math_round_of_int [of 100] by simp
  with percent_value [of a a] assms show ?thesis by simp
qed


lemma fl64_pow2:
  assumes "- 1022 \<le> k"
  shows "fl64 (2 powi k) = 2 powi k"
proof -
  have "(0::rat) < 2 powi k" by simp
  moreover have "(2::rat) powi k = of_int 1 * 2 powi k" by simp
  moreover have "ulp_exponent (2 powi k) \<le> k - 52"
    using assms by (intro ulp_exponent_le) (simp_all add: power_int_strict_increasing)
  then have "ulp_exponent (2 powi k) \<le> k" by simp
  ultimately show ?thesis by (rule fl64_exact)
qed

lemma round64_pow2:
  assumes "- 1022 \<le> k"
  shows "round64 (2 powi k) = (if 1024 \<le> k then Infinity else Num (2 powi k))"
proof -
  have H: "(2::rat) ^ 1024 = 2 powi 1024"
    by (simp only: power_int_numeral)
  have "(2 powi 1024 \<le> (2::rat) powi k) = (1024 \<le> k)"
  proof (cases "1024 \<le> k")
    case True
    then have "(2::rat) powi 1024 \<le> 2 powi k"
      by (intro power_int_increasing) simp_all
    with True show ?thesis by simp
  next
    case False
    then have "(2::rat) powi k < 2 powi 1024"
      by (intro power_int_strict_increasing) simp_all
    with False show ?thesis by simp
  qed
  then show ?thesis
    by (simp only: round64_def fl64_pow2 [OF assms] Let_def H)
qed

lemma nearest_of_close:
  fixes p :: rat and e t :: nat
  assumes t: "0 < t" and close: "\<bar>p - 100 * of_nat e / of_nat t\<bar> < 1 / (2 * of_nat t)"
  shows "\<bar>rat_of_int \<lfloor>p + 1 / 2\<rfloor> - 100 * of_nat e / of_nat t\<bar> \<le> 1 / 2"
proof -
  define v :: rat where "v = 100 * of_nat e / of_nat t"
  define n where "n = \<lfloor>p + 1 / 2\<rfloor>"
  have tpos: "(0::rat) < of_nat t" using t by simp
  have n1: "of_int n \<le> p + 1 / 2" and n2: "p + 1 / 2 < of_int n + 1"
    unfolding n_def by linarith+
  have vt: "v * (2 * of_nat t) = of_int (200 * int e)"
    using t by (simp add: v_def)
  have vt2: "v * (of_nat t * 2) = of_nat e * 200"
    using t by (simp add: v_def)
  have c: "\<bar>p - v\<bar> < 1 / (2 * of_nat t)"
    using close by (simp add: v_def)
  have lo: "of_int n - 1 / 2 \<le> v"
  proof (rule ccontr)
    assume "\<not> of_int n - 1 / 2 \<le> v"
    then have "v < of_int n - 1 / 2" by simp
    then have "v * (2 * of_nat t) < (of_int n - 1 / 2) * (2 * of_nat t)"
      using tpos by (intro mult_strict_right_mono) simp_all
    also have "\<dots> = of_int ((2 * n - 1) * int t)"
      by (simp add: algebra_simps)
    finally have "(of_int (200 * int e) :: rat) < of_int ((2 * n - 1) * int t)"
      by (simp only: vt)
    then have "200 * int e < (2 * n - 1) * int t"
      by (simp only: of_int_less_iff)
    then have "200 * int e + 1 \<le> (2 * n - 1) * int t"
      by simp
    then have "(of_int (200 * int e + 1) :: rat) \<le> of_int ((2 * n - 1) * int t)"
      by (simp only: of_int_le_iff)
    then have "v * (2 * of_nat t) + 1 \<le> (of_int n - 1 / 2) * (2 * of_nat t)"
      by (simp add: algebra_simps vt2)
    then have "(v * (2 * of_nat t) + 1) / (2 * of_nat t) \<le> of_int n - 1 / 2"
      using tpos by (simp add: pos_divide_le_eq)
    then have "v + 1 / (2 * of_nat t) \<le> of_int n - 1 / 2"
      using tpos by (simp add: add_divide_distrib)
    with n1 have "1 / (2 * of_nat t) \<le> p - v" by linarith
    with c show False by linarith
  qed
  have hi: "v \<le> of_int n + 1 / 2"
  proof (rule ccontr)
    assume "\<not> v \<le> of_int n + 1 / 2"
    then have "of_int n + 1 / 2 < v" by simp
    then have "(of_int n + 1 / 2) * (2 * of_nat t) < v * (2 * of_nat t)"
      using tpos by (intro mult_strict_right_mono) simp_all
    moreover have "(of_int n + 1 / 2) * (2 * of_nat t) = (of_int ((2 * n + 1) * int t) :: rat)"
      by (simp add: algebra_simps)
    ultimately have "(of_int ((2 * n + 1) * int t) :: rat) < of_int (200 * int e)"
      by (simp only: vt)
    then have "(2 * n + 1) * int t < 200 * int e"
      by (simp only: of_int_less_iff)
    then have "(2 * n + 1) * int t + 1 \<le> 200 * int e"
      by simp
    then have "(of_int ((2 * n + 1) * int t + 1) :: rat) \<le> of_int (200 * int e)"
      by (simp only: of_int_le_iff)
    then have "(of_int n + 1 / 2) * (2 * of_nat t) + 1 \<le> v * (2 * of_nat t)"
      by (simp add: algebra_simps vt2)
    then have "((of_int n + 1 / 2) * (2 * of_nat t) + 1) / (2 * of_nat t) \<le> v"
      using tpos by (simp add: pos_divide_le_eq)
    then have "of_int n + 1 / 2 + 1 / (2 * of_nat t) \<le> v"
      using tpos by (simp add: add_divide_distrib)
    with n2 have "1 / (2 * of_nat t) < v - p" by linarith
    with c show False by linarith
  qed
  from lo hi have "\<bar>rat_of_int n - v\<bar> \<le> 1 / 2"
    by linarith
  then show ?thesis
    by (simp only: v_def n_def)
qed



lemma percent_nearest:
  assumes t: "0 < t" and le: "e \<le> t" and small: "t < 2 ^ 44"
  shows "\<bar>rat_of_int \<lfloor>fl64 (fl64 (of_nat e / of_nat t) * 100) + 1 / 2\<rfloor>
          - 100 * of_nat e / of_nat t\<bar> \<le> 1 / 2"
proof -
  define x :: rat where "x = of_nat e / of_nat t"
  define q where "q = fl64 x"
  define p where "p = fl64 (q * 100)"
  have x0: "0 \<le> x" and x1: "x \<le> 1"
    using t le by (simp_all add: x_def divide_le_eq)
  have q0: "0 \<le> q"
    unfolding q_def using x0 by (rule fl64_nonneg)
  have "x \<le> of_int 1" using x1 by simp
  then have "q \<le> of_int 1"
    unfolding q_def using x0 by (intro fl64_le_int) simp_all
  then have q1: "q \<le> 1" by simp
  define c1 :: rat where "c1 = 1 / 2 ^ 53"
  define c2 :: rat where "c2 = 1 / 2 ^ 47"
  have "x < 2 powi (0 + 1)" using x1 by simp
  with x0 have "\<bar>fl64 x - x\<bar> \<le> 2 powi (0 - 53)"
    by (rule fl64_error) simp
  then have eq: "\<bar>q - x\<bar> \<le> c1"
    by (simp add: q_def c1_def power_int_minus_divide)
  have "0 \<le> q * 100" using q0 by simp
  moreover have "q * 100 < 2 powi (6 + 1)" using q1 by simp
  ultimately have "\<bar>fl64 (q * 100) - q * 100\<bar> \<le> 2 powi (6 - 53)"
    by (rule fl64_error) simp
  then have ep: "\<bar>p - q * 100\<bar> \<le> c2"
    by (simp add: p_def c2_def power_int_minus_divide)
  note b = abs_le_D1 [OF eq] abs_le_D2 [OF eq] abs_le_D1 [OF ep] abs_le_D2 [OF ep]
  have "\<bar>p - 100 * x\<bar> \<le> c2 + 100 * c1"
    by (rule abs_leI) (use b in linarith)+
  also have "\<dots> < 1 / 2 ^ 45"
    by (simp add: c1_def c2_def)
  also have "\<dots> < 1 / (2 * of_nat t)"
  proof -
    have "rat_of_nat t < of_nat (2 ^ 44)"
      using small by (simp only: of_nat_less_iff)
    then have "2 * rat_of_nat t < 2 ^ 45" by simp
    moreover have "(0::rat) < 2 * of_nat t" using t by simp
    ultimately show ?thesis
      by (intro divide_strict_left_mono mult_pos_pos) simp_all
  qed
  finally have "\<bar>p - 100 * of_nat e / of_nat t\<bar> < 1 / (2 * of_nat t)"
    by (simp add: x_def)
  with t have "\<bar>rat_of_int \<lfloor>p + 1 / 2\<rfloor> - 100 * of_nat e / of_nat t\<bar> \<le> 1 / 2"
    by (rule nearest_of_close)
  then show ?thesis
    by (simp only: p_def q_def x_def)
qed

lemma all_correct_sums:
  assumes "\<forall>q \<in> set (questions qz). answeredCorrectly subm q"
  shows "earnedPointsOf qz subm = totalPointsOf qz"
proof -
  from assms have "filter (answeredCorrectly subm) (questions qz) = questions qz"
    by (simp add: filter_id_conv)
  then show ?thesis
    by (simp add: earnedPointsOf_def totalPointsOf_def)
qed

lemma whole_sums:
  assumes w: "\<forall>q \<in> set (questions qz). points q = of_nat (w q)"
    and small: "sum_list (map w (questions qz)) \<le> 2 ^ 53"
  shows "totalPointsOf qz = Num (of_nat (sum_list (map w (questions qz))))"
    and "earnedPointsOf qz subm =
           Num (of_nat (sum_list (map w (filter (answeredCorrectly subm) (questions qz)))))"
proof -
  have all: "map points (questions qz) = map of_nat (map w (questions qz))"
    using w by simp
  have some: "map points (filter (answeredCorrectly subm) (questions qz))
      = map of_nat (map w (filter (answeredCorrectly subm) (questions qz)))"
    using w by simp
  have "sum_list (map w (filter (answeredCorrectly subm) (questions qz)))
      \<le> sum_list (map w (questions qz))"
    by (rule sum_list_filter_le_nat)
  with small have small': "sum_list (map w (filter (answeredCorrectly subm) (questions qz))) \<le> 2 ^ 53"
    by simp
  show "totalPointsOf qz = Num (of_nat (sum_list (map w (questions qz))))"
    unfolding totalPointsOf_def all using small by (rule js_sum_exact)
  show "earnedPointsOf qz subm =
           Num (of_nat (sum_list (map w (filter (answeredCorrectly subm) (questions qz)))))"
    unfolding earnedPointsOf_def some using small' by (rule js_sum_exact)
qed

lemma whole_nearest:
  assumes w: "\<forall>q \<in> set (questions qz). points q = of_nat (w q)"
    and T: "T = sum_list (map w (questions qz))"
    and E: "E = sum_list (map w (filter (answeredCorrectly subm) (questions qz)))"
    and pos: "0 < T" and small: "T < 2 ^ 44"
  shows "\<exists>n. calculateScore qz subm = Num (of_int n)
           \<and> \<bar>rat_of_int n - 100 * of_nat E / of_nat T\<bar> \<le> 1 / 2"
proof -
  have "(2::nat) ^ 44 \<le> 2 ^ 53" by simp
  with small have s53: "sum_list (map w (questions qz)) \<le> 2 ^ 53"
    unfolding T by linarith
  have le: "E \<le> T"
    unfolding E T by (rule sum_list_filter_le_nat)
  have t: "totalPointsOf qz = Num (of_nat T)"
    and e: "earnedPointsOf qz subm = Num (of_nat E)"
    using whole_sums [OF w s53] by (simp_all add: T E)
  have "calculateScore qz subm
      = Num (of_int \<lfloor>fl64 (fl64 (of_nat E / of_nat T) * 100) + 1 / 2\<rfloor>)"
    using pos le percent_value [of "of_nat E" "of_nat T"]
    by (simp add: calculateScore_sums t e)
  with percent_nearest [OF pos le small] show ?thesis by blast
qed

lemma tie_score:
  "totalPointsOf tieQuiz = Num 40" "earnedPointsOf tieQuiz answersTie = Num 23"
  "calculateScore tieQuiz answersTie = Num 57"
proof -
  have q: "questions tieQuiz = [tfQuestion ''t1'' 23, tfQuestion ''t2'' 17]"
    by (simp add: tieQuiz_def)
  have f: "filter (answeredCorrectly answersTie) (questions tieQuiz) = [tfQuestion ''t1'' 23]"
    by (simp add: q answeredCorrectly_def matchingAnswer_def answersTie_def submitted_def
        tfQuestion_def)
  have "js_sum (map of_nat [23, 17]) = Num (of_nat (sum_list [23, 17]))"
    by (rule js_sum_exact) simp
  then show t: "totalPointsOf tieQuiz = Num 40"
    by (simp add: totalPointsOf_def q tfQuestion_def)
  have "js_sum (map of_nat [23]) = Num (of_nat (sum_list [23]))"
    by (rule js_sum_exact) simp
  then show e: "earnedPointsOf tieQuiz answersTie = Num 23"
    by (simp add: earnedPointsOf_def f tfQuestion_def)
  show "calculateScore tieQuiz answersTie = Num 57"
    unfolding calculateScore_sums t e using score_23_of_40 by simp
qed

lemma huge_sums:
  "js_sum [hugeWeight] = Num hugeWeight" "js_sum [hugeWeight, hugeWeight] = Infinity"
proof -
  have one: "round64 hugeWeight = Num hugeWeight"
    unfolding hugeWeight_def by (simp only: round64_pow2) simp
  have "(2::rat) powi (1023 + 1) = 2 powi 1023 * 2"
    by (rule power_int_add_1) simp
  then have "hugeWeight + hugeWeight = 2 powi 1024"
    unfolding hugeWeight_def by simp
  then have two: "round64 (hugeWeight + hugeWeight) = Infinity"
    by (simp only: round64_pow2) simp
  show "js_sum [hugeWeight] = Num hugeWeight"
    by (simp only: js_sum_def foldl_Cons foldl_Nil js_add.simps add_0 one)
  show "js_sum [hugeWeight, hugeWeight] = Infinity"
    by (simp only: js_sum_def foldl_Cons foldl_Nil js_add.simps add_0 one two)
qed

lemma huge_score:
  "totalPointsOf hugeQuiz = Infinity" "earnedPointsOf hugeQuiz answersHuge = Infinity"
  "calculateScore hugeQuiz answersHuge = NaN"
proof -
  have q: "questions hugeQuiz = [tfQuestion ''h1'' hugeWeight, tfQuestion ''h2'' hugeWeight]"
    by (simp add: hugeQuiz_def)
  have f: "filter (answeredCorrectly answersHuge) (questions hugeQuiz) = questions hugeQuiz"
    by (simp add: q answeredCorrectly_def matchingAnswer_def answersHuge_def submitted_def
        tfQuestion_def)
  show t: "totalPointsOf hugeQuiz = Infinity"
    by (simp add: totalPointsOf_def q tfQuestion_def huge_sums)
  show e: "earnedPointsOf hugeQuiz answersHuge = Infinity"
    unfolding earnedPointsOf_def f using t by (simp add: totalPointsOf_def)
  show "calculateScore hugeQuiz answersHuge = NaN"
    unfolding calculateScore_sums t e by simp
qed

text \<open>A sum of weights is never \<open>NaN\<close>.\<close>

lemma foldl_add_not_NaN:
  "acc \<noteq> NaN \<Longrightarrow> foldl (\<lambda>acc w. js_add acc (Num w)) acc ws \<noteq> NaN"
proof (induction ws arbitrary: acc)
  case Nil
  then show ?case by simp
next
  case (Cons w ws)
  from Cons.prems have "js_add acc (Num w) \<noteq> NaN"
    by (cases acc) (simp_all add: round64_def Let_def)
  then show ?case
    using Cons.IH by simp
qed

lemma js_sum_not_NaN: "js_sum ws \<noteq> NaN"
  unfolding js_sum_def by (rule foldl_add_not_NaN) simp

lemma score_of_overflow:
  assumes "totalPointsOf qz = Infinity"
  shows "calculateScore qz subm = (if earnedPointsOf qz subm = Infinity then NaN else Num 0)"
proof (cases "earnedPointsOf qz subm")
  case (Num b)
  have "\<lfloor>(1::rat) / 2\<rfloor> = 0"
    by (rule floor_unique) simp_all
  then show ?thesis
    using assms Num by (simp add: calculateScore_sums round64_def fl64_def)
next
  case Infinity
  then show ?thesis
    using assms by (simp add: calculateScore_sums)
next
  case NaN
  then show ?thesis
    using js_sum_not_NaN by (simp add: earnedPointsOf_def)
qed

lemma huge_one_score:
  "earnedPointsOf hugeQuiz answersHugeOne = Num hugeWeight"
  "calculateScore hugeQuiz answersHugeOne = Num 0"
  "exact_percent hugeWeight (hugeWeight + hugeWeight) = 50"
proof -
  have q: "questions hugeQuiz = [tfQuestion ''h1'' hugeWeight, tfQuestion ''h2'' hugeWeight]"
    by (simp add: hugeQuiz_def)
  have f: "filter (answeredCorrectly answersHugeOne) (questions hugeQuiz)
      = [tfQuestion ''h1'' hugeWeight]"
    by (simp add: q answeredCorrectly_def matchingAnswer_def answersHugeOne_def submitted_def
        tfQuestion_def)
  show e: "earnedPointsOf hugeQuiz answersHugeOne = Num hugeWeight"
    by (simp add: earnedPointsOf_def f tfQuestion_def huge_sums)
  show "calculateScore hugeQuiz answersHugeOne = Num 0"
    using score_of_overflow [OF huge_score(1), of answersHugeOne] e by simp
  have "(0::rat) < 2 powi 1023"
    by simp
  then have pos: "0 < hugeWeight"
    by (simp only: hugeWeight_def)
  then have "hugeWeight / (hugeWeight + hugeWeight) * 100 + 1 / 2 = 101 / 2"
    by (simp add: field_simps)
  moreover have "\<lfloor>(101::rat) / 2\<rfloor> = 50"
    by (rule floor_unique) simp_all
  ultimately show "exact_percent hugeWeight (hugeWeight + hugeWeight) = 50"
    by (simp only: exact_percent_def)
qed
section \<open>Quiz score\<close>

text \<open>
  C5. The score is \<open>Math.round(earned / total * 100)\<close> in the arithmetic of Numbers,
  where \<open>total\<close> is the running sum of all point weights and \<open>earned\<close> the running sum
  of the weights of the questions whose matching submitted answer (the one \<open>find\<close>
  returns) is flagged correct; it is 0 when \<open>total\<close> is 0, a value and not an exception.
  When every question is answered correctly the score is 100 if \<open>total\<close> is finite and
  not 0, and \<open>NaN\<close> if \<open>total\<close> has overflowed to \<open>Infinity\<close>; whenever \<open>total\<close> has
  overflowed the score is \<open>NaN\<close> if \<open>earned\<close> has overflowed too and 0 if not. With
  weights 1 and 3 and only the 3-point question answered correctly it is 75. For
  whole-number weights whose
  sum is below \<open>2^44\<close> the score is an integer within one half of the exact percentage
  \<open>100 * earned / total\<close>; the quotient and the product are rounded to binary64 before
  \<open>Math.round\<close>, so at an exact half the score may be the lower neighbour.
\<close>

theorem calculateScore_formula:
  "calculateScore qz subm =
     (if js_gt (totalPointsOf qz) (Num 0)
      then Math_round (js_mul (js_div (earnedPointsOf qz subm) (totalPointsOf qz)) (Num 100))
      else Num 0)
   \<and> (questions qz = [] \<longrightarrow> totalPointsOf qz = Num 0)
   \<and> (totalPointsOf qz = Num 0 \<longrightarrow> calculateScore qz subm = Num 0)
   \<and> ((\<forall>q \<in> set (questions qz). answeredCorrectly subm q)
        \<and> (\<exists>a. totalPointsOf qz = Num a \<and> 0 < a)
        \<longrightarrow> calculateScore qz subm = Num 100)
   \<and> ((\<forall>q \<in> set (questions qz). answeredCorrectly subm q) \<and> totalPointsOf qz = Infinity
        \<longrightarrow> calculateScore qz subm = NaN)
   \<and> (totalPointsOf qz = Infinity
        \<longrightarrow> calculateScore qz subm
              = (if earnedPointsOf qz subm = Infinity then NaN else Num 0))
   \<and> (map points (questions qz) = [1, 3]
        \<and> map (answeredCorrectly subm) (questions qz) = [False, True]
        \<longrightarrow> calculateScore qz subm = Num 75)
   \<and> ((\<forall>q \<in> set (questions qz). points q = of_nat (w q))
        \<and> T = sum_list (map w (questions qz))
        \<and> E = sum_list (map w (filter (answeredCorrectly subm) (questions qz)))
        \<and> 0 < T \<and> T < 2 ^ 44
        \<longrightarrow> totalPointsOf qz = Num (of_nat T) \<and> earnedPointsOf qz subm = Num (of_nat E)
            \<and> (\<exists>n. calculateScore qz subm = Num (of_int n)
                  \<and> \<bar>rat_of_int n - 100 * of_nat E / of_nat T\<bar> \<le> 1 / 2))"
proof (intro conjI impI)
  show "calculateScore qz subm =
     (if js_gt (totalPointsOf qz) (Num 0)
      then Math_round (js_mul (js_div (earnedPointsOf qz subm) (totalPointsOf qz)) (Num 100))
      else Num 0)"
    by (rule calculateScore_sums)
next
  assume "questions qz = []"
  then show "totalPointsOf qz = Num 0"
    by (simp add: totalPointsOf_def js_sum_def)
next
  assume "totalPointsOf qz = Num 0"
  then show "calculateScore qz subm = Num 0"
    by (simp add: calculateScore_sums)
next
  assume a: "(\<forall>q \<in> set (questions qz). answeredCorrectly subm q)
    \<and> (\<exists>a. totalPointsOf qz = Num a \<and> 0 < a)"
  then obtain a where t: "totalPointsOf qz = Num a" and pos: "0 < a"
    by blast
  from a have e: "earnedPointsOf qz subm = Num a"
    by (simp add: all_correct_sums t)
  show "calculateScore qz subm = Num 100"
    unfolding calculateScore_sums t e using pos score_all_of [OF pos] by simp
next
  assume a: "(\<forall>q \<in> set (questions qz). answeredCorrectly subm q) \<and> totalPointsOf qz = Infinity"
  then have "earnedPointsOf qz subm = Infinity"
    by (simp add: all_correct_sums)
  with a show "calculateScore qz subm = NaN"
    by (simp add: calculateScore_sums)
next
  assume "totalPointsOf qz = Infinity"
  then show "calculateScore qz subm
              = (if earnedPointsOf qz subm = Infinity then NaN else Num 0)"
    by (rule score_of_overflow)
next
  assume a: "map points (questions qz) = [1, 3]
    \<and> map (answeredCorrectly subm) (questions qz) = [False, True]"
  then obtain q1 q3 where qs: "questions qz = [q1, q3]"
    by auto
  have 4: "js_sum (map of_nat [1, 3]) = Num (of_nat (sum_list [1, 3]))"
    by (rule js_sum_exact) simp
  have 3: "js_sum (map of_nat [3]) = Num (of_nat (sum_list [3]))"
    by (rule js_sum_exact) simp
  from a qs 4 have t: "totalPointsOf qz = Num 4"
    by (simp add: totalPointsOf_def)
  from a qs 3 have e: "earnedPointsOf qz subm = Num 3"
    by (simp add: earnedPointsOf_def)
  show "calculateScore qz subm = Num 75"
    unfolding calculateScore_sums t e using score_3_of_4 by simp
next
  assume a: "(\<forall>q \<in> set (questions qz). points q = of_nat (w q))
        \<and> T = sum_list (map w (questions qz))
        \<and> E = sum_list (map w (filter (answeredCorrectly subm) (questions qz)))
        \<and> 0 < T \<and> T < 2 ^ 44"
  have "(2::nat) ^ 44 \<le> 2 ^ 53" by simp
  with a have s53: "sum_list (map w (questions qz)) \<le> 2 ^ 53"
    by linarith
  from a have w: "\<forall>q \<in> set (questions qz). points q = of_nat (w q)"
    by blast
  show "totalPointsOf qz = Num (of_nat T)" "earnedPointsOf qz subm = Num (of_nat E)"
    using whole_sums [OF w s53] a by simp_all
  show "\<exists>n. calculateScore qz subm = Num (of_int n)
           \<and> \<bar>rat_of_int n - 100 * of_nat E / of_nat T\<bar> \<le> 1 / 2"
    using a by (intro whole_nearest [of qz w]) simp_all
qed

lemma quiz13_all_correct:
  "answeredCorrectly answersAll (tfQuestion ''q1'' 1)"
  "answeredCorrectly answersAll (tfQuestion ''q3'' 3)"
  by (simp_all add: answersAll_def answeredCorrectly_def matchingAnswer_def submitted_def
      tfQuestion_def)

lemma quiz13_weights:
  "points (tfQuestion ''q1'' 1) = of_nat (wholeWeight (tfQuestion ''q1'' 1))"
  "points (tfQuestion ''q3'' 3) = of_nat (wholeWeight (tfQuestion ''q3'' 3))"
  "sum_list (map wholeWeight (questions quiz13)) = 4"
  "sum_list (map wholeWeight (filter (answeredCorrectly answersOnly3) (questions quiz13))) = 3"
  by (simp_all add: wholeWeight_def tfQuestion_def quiz13_def answersOnly3_def
      answeredCorrectly_def matchingAnswer_def submitted_def)

lemma huge_all_correct:
  "answeredCorrectly answersHuge (tfQuestion ''h1'' hugeWeight)"
  "answeredCorrectly answersHuge (tfQuestion ''h2'' hugeWeight)"
  by (simp_all add: answersHuge_def answeredCorrectly_def matchingAnswer_def submitted_def
      tfQuestion_def)

theorem calculateScore_formula_witness:
  "questions emptyQuiz = [] \<and> totalPointsOf emptyQuiz = Num 0
   \<and> calculateScore emptyQuiz answersAll = Num 0
   \<and> answeredCorrectly answersAll (tfQuestion ''q1'' 1)
   \<and> answeredCorrectly answersAll (tfQuestion ''q3'' 3)
   \<and> totalPointsOf quiz13 = Num 4 \<and> (0::rat) < 4
   \<and> calculateScore quiz13 answersAll = Num 100
   \<and> answeredCorrectly answersHuge (tfQuestion ''h1'' hugeWeight)
   \<and> answeredCorrectly answersHuge (tfQuestion ''h2'' hugeWeight)
   \<and> totalPointsOf hugeQuiz = Infinity
   \<and> calculateScore hugeQuiz answersHuge = NaN
   \<and> earnedPointsOf hugeQuiz answersHugeOne \<noteq> Infinity
   \<and> calculateScore hugeQuiz answersHugeOne = Num 0
   \<and> map points (questions quiz13) = [1, 3]
   \<and> map (answeredCorrectly answersOnly3) (questions quiz13) = [False, True]
   \<and> calculateScore quiz13 answersOnly3 = Num 75
   \<and> points (tfQuestion ''q1'' 1) = of_nat (wholeWeight (tfQuestion ''q1'' 1))
   \<and> points (tfQuestion ''q3'' 3) = of_nat (wholeWeight (tfQuestion ''q3'' 3))
   \<and> (4::nat) = sum_list (map wholeWeight (questions quiz13))
   \<and> (3::nat) = sum_list (map wholeWeight
                    (filter (answeredCorrectly answersOnly3) (questions quiz13)))
   \<and> (0::nat) < 4 \<and> (4::nat) < 2 ^ 44
   \<and> earnedPointsOf quiz13 answersOnly3 = Num 3
   \<and> (\<exists>n. calculateScore quiz13 answersOnly3 = Num (of_int n)
         \<and> \<bar>rat_of_int n - 100 * 3 / 4\<bar> \<le> 1 / 2)"
proof -
  have e0: "questions emptyQuiz = []"
    by (simp add: emptyQuiz_def)
  note r0 = calculateScore_formula [of emptyQuiz answersAll]
  from r0 e0 have t0: "totalPointsOf emptyQuiz = Num 0"
    by blast
  from r0 t0 have s0: "calculateScore emptyQuiz answersAll = Num 0"
    by blast
  have q13: "questions quiz13 = [tfQuestion ''q1'' 1, tfQuestion ''q3'' 3]"
    by (simp add: quiz13_def)
  have all: "\<forall>q \<in> set (questions quiz13). answeredCorrectly answersAll q"
    using quiz13_all_correct by (simp add: q13)
  have wq: "\<forall>q \<in> set (questions quiz13). points q = of_nat (wholeWeight q)"
    using quiz13_weights(1,2) by (simp add: q13)
  have 4: "(4::nat) = sum_list (map wholeWeight (questions quiz13))"
    and 3: "(3::nat) = sum_list (map wholeWeight
                    (filter (answeredCorrectly answersOnly3) (questions quiz13)))"
    using quiz13_weights(3,4) by simp_all
  have b: "(0::nat) < 4" "(4::nat) < 2 ^ 44"
    by simp_all
  note rw = calculateScore_formula [of quiz13 answersOnly3 wholeWeight 4 3]
  from rw wq 4 3 b have "totalPointsOf quiz13 = Num (of_nat 4)"
    "earnedPointsOf quiz13 answersOnly3 = Num (of_nat 3)"
    "\<exists>n. calculateScore quiz13 answersOnly3 = Num (of_int n)
         \<and> \<bar>rat_of_int n - 100 * of_nat 3 / of_nat 4\<bar> \<le> 1 / 2"
    by blast+
  then have t13: "totalPointsOf quiz13 = Num 4"
    and e13: "earnedPointsOf quiz13 answersOnly3 = Num 3"
    and n13: "\<exists>n. calculateScore quiz13 answersOnly3 = Num (of_int n)
         \<and> \<bar>rat_of_int n - 100 * 3 / 4\<bar> \<le> 1 / 2"
    by simp_all
  have pos: "(0::rat) < 4"
    by simp
  from calculateScore_formula [of quiz13 answersAll] all t13 pos
  have s100: "calculateScore quiz13 answersAll = Num 100"
    by blast
  have qh: "questions hugeQuiz = [tfQuestion ''h1'' hugeWeight, tfQuestion ''h2'' hugeWeight]"
    by (simp add: hugeQuiz_def)
  have allh: "\<forall>q \<in> set (questions hugeQuiz). answeredCorrectly answersHuge q"
    using huge_all_correct by (simp add: qh)
  note th = huge_score(1)
  from calculateScore_formula [of hugeQuiz answersHuge] allh th
  have sh: "calculateScore hugeQuiz answersHuge = NaN"
    by blast
  have eo: "earnedPointsOf hugeQuiz answersHugeOne \<noteq> Infinity"
    by (simp add: huge_one_score(1))
  from calculateScore_formula [of hugeQuiz answersHugeOne wholeWeight 0 0] th
  have "calculateScore hugeQuiz answersHugeOne
      = (if earnedPointsOf hugeQuiz answersHugeOne = Infinity then NaN else Num 0)"
    by blast
  with eo have so: "calculateScore hugeQuiz answersHugeOne = Num 0"
    by simp
  have p: "map points (questions quiz13) = [1, 3]"
    by (simp add: quiz13_def tfQuestion_def)
  have o: "map (answeredCorrectly answersOnly3) (questions quiz13) = [False, True]"
    by (simp add: quiz13_def answersOnly3_def answeredCorrectly_def matchingAnswer_def
        submitted_def tfQuestion_def)
  from rw p o
  have s75: "calculateScore quiz13 answersOnly3 = Num 75"
    by blast
  show ?thesis
    using e0 t0 s0 quiz13_all_correct t13 pos s100 huge_all_correct th sh eo so p o s75
      quiz13_weights(1,2) 4 3 b e13 n13
    by (intro conjI)
qed

text \<open>
  The score is not always the exact percentage rounded to the nearest integer with
  halves up, and not always 100 when every question is answered correctly: 23 of 40
  points is exactly 57.5, \<open>23 / 40 * 100\<close> is a Number just below it and the score is 57;
  with two weights of \<open>2^1023\<close> and both questions answered correctly both sums are
  \<open>Infinity\<close> and the score is \<open>NaN\<close>; with the first of them answered correctly, half
  of the points, the score is 0.
\<close>

theorem score_below_half_and_overflow:
  "totalPointsOf tieQuiz = Num 40 \<and> earnedPointsOf tieQuiz answersTie = Num 23
   \<and> exact_percent 23 40 = 58
   \<and> calculateScore tieQuiz answersTie = Num 57
   \<and> list_all (answeredCorrectly answersHuge) (questions hugeQuiz)
   \<and> js_gt (totalPointsOf hugeQuiz) (Num 0)
   \<and> calculateScore hugeQuiz answersHuge = NaN
   \<and> map points (questions hugeQuiz) = [hugeWeight, hugeWeight]
   \<and> map (answeredCorrectly answersHugeOne) (questions hugeQuiz) = [True, False]
   \<and> exact_percent hugeWeight (hugeWeight + hugeWeight) = 50
   \<and> calculateScore hugeQuiz answersHugeOne = Num 0"
proof -
  have "list_all (answeredCorrectly answersHuge) (questions hugeQuiz)"
    using huge_all_correct by (simp add: hugeQuiz_def)
  moreover have "map points (questions hugeQuiz) = [hugeWeight, hugeWeight]"
    by (simp add: hugeQuiz_def tfQuestion_def)
  moreover have "map (answeredCorrectly answersHugeOne) (questions hugeQuiz) = [True, False]"
    by (simp add: hugeQuiz_def tfQuestion_def answeredCorrectly_def matchingAnswer_def
        answersHugeOne_def submitted_def)
  ultimately show ?thesis
    using tie_score huge_score exact_23_of_40 huge_one_score(2,3) by simp
qed

lemma find_skip:
  assumes "\<not> P a \<or> (\<exists>b \<in> set xs. P b)"
  shows "find P (xs @ a # ys) = find P (xs @ ys)"
  using assms by (induction xs) auto

lemma matchingAnswer_skip:
  assumes "(\<exists>b \<in> set xs. questionId b = questionId a) \<or> questionId a \<notin> qid ` set qs"
    and "q \<in> set qs"
  shows "matchingAnswer (xs @ a # ys) q = matchingAnswer (xs @ ys) q"
  unfolding matchingAnswer_def
proof (rule find_skip)
  show "questionId a \<noteq> qid q \<or> (\<exists>b\<in>set xs. questionId b = qid q)"
    using assms by (cases "questionId a = qid q") auto
qed

lemma earnedPointsOf_skip:
  assumes "(\<exists>b \<in> set xs. questionId b = questionId a)
           \<or> questionId a \<notin> qid ` set (questions qz)"
  shows "earnedPointsOf qz (xs @ a # ys) = earnedPointsOf qz (xs @ ys)"
proof -
  have "filter (answeredCorrectly (xs @ a # ys)) (questions qz)
      = filter (answeredCorrectly (xs @ ys)) (questions qz)"
    by (rule filter_cong [OF refl])
       (simp add: answeredCorrectly_def matchingAnswer_skip [OF assms])
  then show ?thesis by (simp add: earnedPointsOf_def)
qed

lemma calculateScore_range:
  assumes "validWeights qz"
  shows "(earnedPointsOf qz subm = Infinity \<and> calculateScore qz subm = NaN)
       \<or> (earnedPointsOf qz subm \<noteq> Infinity
           \<and> (\<exists>n. calculateScore qz subm = Num (of_int n) \<and> 0 \<le> n \<and> n \<le> 100))"
  unfolding calculateScore_sums by (rule score_of_sums [OF sums_ordered [OF assms]])

lemma earned_finite:
  assumes "validWeights qz" and "totalPointsOf qz \<noteq> Infinity"
  shows "earnedPointsOf qz subm \<noteq> Infinity"
  using sums_ordered [OF assms(1), of subm] assms(2)
  by (cases "totalPointsOf qz"; cases "earnedPointsOf qz subm") simp_all

text \<open>
  C10. For every quiz whose point weights are at least 1, as the schema demands, and
  every list of submitted answers, the score is an integer from 0 to 100 unless the
  earned sum has overflowed to \<open>Infinity\<close>, and then it is \<open>NaN\<close>; it is an integer from
  0 to 100 whenever the total of the weights is finite. The earned sum never exceeds
  the total, a question's weight being added at most once: an answer that follows
  another answer with the same \<open>questionId\<close> is never consulted, and neither is an answer
  whose \<open>questionId\<close> is no question's identifier.
\<close>

theorem calculateScore_bounded_first_answer:
  "(validWeights qz \<longrightarrow>
      sum_le (earnedPointsOf qz subm) (totalPointsOf qz)
      \<and> ((earnedPointsOf qz subm = Infinity \<and> calculateScore qz subm = NaN)
         \<or> (earnedPointsOf qz subm \<noteq> Infinity
             \<and> (\<exists>n. calculateScore qz subm = Num (of_int n) \<and> 0 \<le> n \<and> n \<le> 100))))
   \<and> (validWeights qz \<and> totalPointsOf qz \<noteq> Infinity \<longrightarrow>
        (\<exists>n. calculateScore qz subm = Num (of_int n) \<and> 0 \<le> n \<and> n \<le> 100))
   \<and> ((\<exists>b \<in> set xs. questionId b = questionId a)
        \<longrightarrow> calculateScore qz (xs @ a # ys) = calculateScore qz (xs @ ys))
   \<and> (questionId a \<notin> qid ` set (questions qz)
        \<longrightarrow> calculateScore qz (xs @ a # ys) = calculateScore qz (xs @ ys))"
proof (intro conjI impI)
  assume v: "validWeights qz"
  show "sum_le (earnedPointsOf qz subm) (totalPointsOf qz)"
    using v by (rule sums_ordered)
  show "(earnedPointsOf qz subm = Infinity \<and> calculateScore qz subm = NaN)
         \<or> (earnedPointsOf qz subm \<noteq> Infinity
             \<and> (\<exists>n. calculateScore qz subm = Num (of_int n) \<and> 0 \<le> n \<and> n \<le> 100))"
    using v by (rule calculateScore_range)
next
  assume a: "validWeights qz \<and> totalPointsOf qz \<noteq> Infinity"
  then have "earnedPointsOf qz subm \<noteq> Infinity"
    by (intro earned_finite) simp_all
  with calculateScore_range [of qz subm] a
  show "\<exists>n. calculateScore qz subm = Num (of_int n) \<and> 0 \<le> n \<and> n \<le> 100"
    by blast
next
  assume "\<exists>b \<in> set xs. questionId b = questionId a"
  then have "earnedPointsOf qz (xs @ a # ys) = earnedPointsOf qz (xs @ ys)"
    by (intro earnedPointsOf_skip) simp
  then show "calculateScore qz (xs @ a # ys) = calculateScore qz (xs @ ys)"
    by (simp add: calculateScore_sums)
next
  assume "questionId a \<notin> qid ` set (questions qz)"
  then have "earnedPointsOf qz (xs @ a # ys) = earnedPointsOf qz (xs @ ys)"
    by (intro earnedPointsOf_skip) simp
  then show "calculateScore qz (xs @ a # ys) = calculateScore qz (xs @ ys)"
    by (simp add: calculateScore_sums)
qed

lemma quiz13_valid: "validWeights quiz13"
  by (simp add: validWeights_def quiz13_def tfQuestion_def)

lemma quiz13_total: "totalPointsOf quiz13 = Num 4"
proof -
  have "js_sum (map of_nat [1, 3]) = Num (of_nat (sum_list [1, 3]))"
    by (rule js_sum_exact) simp
  then show ?thesis
    by (simp add: totalPointsOf_def quiz13_def tfQuestion_def)
qed

lemma quiz13_none_correct:
  "earnedPointsOf quiz13 [submitted ''q3'' False 0] = Num 0"
  by (simp add: earnedPointsOf_def quiz13_def tfQuestion_def answeredCorrectly_def
      matchingAnswer_def submitted_def js_sum_def)

lemma score_0_of_4: "Math_round (js_mul (js_div (Num 0) (Num 4)) (Num 100)) = Num 0"
proof -
  have "\<lfloor>(1::rat) / 2\<rfloor> = 0"
    by (rule floor_unique) simp_all
  then have "\<lfloor>fl64 (fl64 (0 / 4) * 100) + 1 / 2\<rfloor> = 0"
    by (simp add: fl64_def)
  with percent_value [of 0 4] show ?thesis by simp
qed

theorem calculateScore_bounded_first_answer_witness:
  "validWeights quiz13 \<and> totalPointsOf quiz13 \<noteq> Infinity
   \<and> sum_le (earnedPointsOf quiz13 [submitted ''q3'' False 0]) (totalPointsOf quiz13)
   \<and> earnedPointsOf quiz13 [submitted ''q3'' False 0] \<noteq> Infinity
   \<and> (\<exists>n. calculateScore quiz13 [submitted ''q3'' False 0] = Num (of_int n)
         \<and> 0 \<le> n \<and> n \<le> 100)
   \<and> submitted ''q3'' False 0 \<in> set [submitted ''q3'' False 0]
   \<and> questionId (submitted ''q3'' False 0) = questionId (submitted ''q3'' True 3)
   \<and> calculateScore quiz13 ([submitted ''q3'' False 0] @ submitted ''q3'' True 3 # [])
       = calculateScore quiz13 ([submitted ''q3'' False 0] @ [])
   \<and> calculateScore quiz13 [submitted ''q3'' False 0] = Num 0
   \<and> questionId (submitted ''zz'' True 5) \<notin> qid ` set (questions quiz13)
   \<and> calculateScore quiz13 ([] @ submitted ''zz'' True 5 # [submitted ''q3'' True 3])
       = calculateScore quiz13 ([] @ [submitted ''q3'' True 3])"
proof -
  have v: "validWeights quiz13"
    by (rule quiz13_valid)
  have f: "totalPointsOf quiz13 \<noteq> Infinity"
    by (simp add: quiz13_total)
  have m: "submitted ''q3'' False 0 \<in> set [submitted ''q3'' False 0]"
    by simp
  have i: "questionId (submitted ''q3'' False 0) = questionId (submitted ''q3'' True 3)"
    by (simp add: submitted_def)
  have d: "\<exists>b \<in> set [submitted ''q3'' False 0]. questionId b = questionId (submitted ''q3'' True 3)"
    using m i by blast
  have u: "questionId (submitted ''zz'' True 5) \<notin> qid ` set (questions quiz13)"
    by (simp add: submitted_def quiz13_def tfQuestion_def)
  have z: "calculateScore quiz13 [submitted ''q3'' False 0] = Num 0"
    unfolding calculateScore_sums quiz13_total quiz13_none_correct
    using score_0_of_4 by simp
  have e: "earnedPointsOf quiz13 [submitted ''q3'' False 0] \<noteq> Infinity"
    by (simp add: quiz13_none_correct)
  note r = calculateScore_bounded_first_answer
    [of quiz13 "[submitted ''q3'' False 0]" "[submitted ''q3'' False 0]"
        "submitted ''q3'' True 3" "[]"]
  note s = calculateScore_bounded_first_answer
    [of quiz13 "[submitted ''q3'' False 0]" "[]"
        "submitted ''zz'' True 5" "[submitted ''q3'' True 3]"]
  from r v have 0: "sum_le (earnedPointsOf quiz13 [submitted ''q3'' False 0]) (totalPointsOf quiz13)"
    by blast
  from r v f have 3: "\<exists>n. calculateScore quiz13 [submitted ''q3'' False 0] = Num (of_int n)
         \<and> 0 \<le> n \<and> n \<le> 100"
    by blast
  from r d have 1: "calculateScore quiz13 ([submitted ''q3'' False 0] @ submitted ''q3'' True 3 # [])
       = calculateScore quiz13 ([submitted ''q3'' False 0] @ [])"
    by blast
  from s u have 2: "calculateScore quiz13 ([] @ submitted ''zz'' True 5 # [submitted ''q3'' True 3])
       = calculateScore quiz13 ([] @ [submitted ''q3'' True 3])"
    by blast
  from v f 0 e 3 m i 1 z u 2 show ?thesis by (intro conjI)
qed

text \<open>
  The score is not always a number from 0 to 100: the weights \<open>2^1023\<close> and \<open>2^1023\<close>
  satisfy the schema, their sum overflows, and with both questions answered correctly
  the score is \<open>NaN\<close>.
\<close>

theorem score_not_a_number:
  "validWeights hugeQuiz
   \<and> totalPointsOf hugeQuiz = Infinity \<and> earnedPointsOf hugeQuiz answersHuge = Infinity
   \<and> calculateScore hugeQuiz answersHuge = NaN"
proof -
  have "(1::rat) = 2 powi 0" by simp
  also have "\<dots> \<le> 2 powi 1023"
    by (rule power_int_increasing) simp_all
  finally have "1 \<le> hugeWeight"
    by (simp add: hugeWeight_def)
  then have "validWeights hugeQuiz"
    by (simp add: validWeights_def hugeQuiz_def tfQuestion_def)
  then show ?thesis
    using huge_score by simp
qed

section \<open>Recording a quiz attempt\<close>

lemma pushAttempt_attempts:
  "attempts (pushAttempt qz uid subm spent newId now) =
     attempts qz @ [\<lparr>attemptId = newId, attemptUserId = uid, score = calculateScore qz subm,
                     answers = subm, completedAt = now, timeSpent = spent\<rparr>]"
  by (simp add: pushAttempt_def Let_def)

lemma pushAttempt_fields:
  "questions (pushAttempt qz uid subm spent newId now) = questions qz"
  "quizId (pushAttempt qz uid subm spent newId now) = quizId qz"
  by (simp_all add: pushAttempt_def Let_def)

text \<open>
  The validators accept the document with the new attempt exactly when they accept the
  stored document, every submitted answer and the computed score.
\<close>

lemma validate_pushAttempt:
  "validateQuiz (pushAttempt qz uid subm spent newId now)
     \<longleftrightarrow> validateQuiz qz \<and> validSubmission qz subm"
  by (auto simp: validateQuiz_def pushAttempt_attempts validateAttempt_def validSubmission_def
      pushAttempt_def Let_def)

lemma addAttempt_cases:
  "addAttempt qz uid subm spent newId now saveTime =
     (if validateQuiz qz \<and> validSubmission qz subm
      then Inr (savedQuiz qz uid subm spent newId now saveTime)
      else Inl ValidationError)"
  by (simp add: addAttempt_def saveQuiz_def validate_pushAttempt savedQuiz_def)

lemma storeQuiz_lookup_same:
  assumes "findQuizById st i = Some q" and "quizId g = i"
  shows "findQuizById (storeQuiz st g) i = Some g"
  using assms by (simp add: findQuizById_def storeQuiz_def find_replace_same)

lemma storeQuiz_lookup_other:
  assumes "j \<noteq> quizId g"
  shows "findQuizById (storeQuiz st g) j = findQuizById st j"
  using assms by (simp add: findQuizById_def storeQuiz_def find_replace_other)

lemma storeQuiz_fields:
  "flashcards (storeQuiz st g) = flashcards st"
  "contents (storeQuiz st g) = contents st"
  by (simp_all add: storeQuiz_def)

lemma recordQuizAttempt_ok:
  assumes "findQuizById st i = Some qz"
    and "findOwnedContent st (quizContentId qz) user = Some c"
    and "validateQuiz qz" and "validSubmission qz subm"
  shows "recordQuizAttempt st user i subm spent newId now saveTime =
     Inr (storeQuiz st (savedQuiz qz user subm spent newId now saveTime),
          \<lparr>r_score = calculateScore qz subm, r_totalAttempts = length (attempts qz) + 1\<rparr>)"
  unfolding recordQuizAttempt_def assms(1,2) option.case addAttempt_cases
  using assms(3,4) by (simp add: savedQuiz_def pushAttempt_attempts)

lemma recordQuizAttempt_refused:
  assumes "findQuizById st i = Some qz"
    and "findOwnedContent st (quizContentId qz) user = Some c"
    and "\<not> (validateQuiz qz \<and> validSubmission qz subm)"
  shows "recordQuizAttempt st user i subm spent newId now saveTime = Inl ValidationError"
  unfolding recordQuizAttempt_def assms(1,2) option.case addAttempt_cases
  using assms(3) by simp

lemma recordQuizAttempt_Inr:
  assumes "recordQuizAttempt st user i subm spent newId now saveTime = Inr (st', r)"
  obtains qz c where "findQuizById st i = Some qz"
    and "findOwnedContent st (quizContentId qz) user = Some c"
    and "validateQuiz qz" and "validSubmission qz subm"
proof (cases "findQuizById st i")
  case None
  with assms show ?thesis by (simp add: recordQuizAttempt_def)
next
  case (Some qz)
  note q = this
  show ?thesis
  proof (cases "findOwnedContent st (quizContentId qz) user")
    case None
    with assms q show ?thesis by (simp add: recordQuizAttempt_def)
  next
    case (Some c)
    have "validateQuiz qz \<and> validSubmission qz subm"
    proof (rule ccontr)
      assume "\<not> (validateQuiz qz \<and> validSubmission qz subm)"
      with assms q Some show False
        by (simp add: recordQuizAttempt_def addAttempt_cases)
    qed
    with q Some that show ?thesis by blast
  qed
qed


lemma recordQuizAttempt_success:
  assumes "recordQuizAttempt st user i subm spent newId now saveTime = Inr (st', r)"
  obtains q q' where "findQuizById st i = Some q" and "findQuizById st' i = Some q'"
    and "validateQuiz q" and "validateQuiz q'"
    and "attempts q' = attempts q @
           [\<lparr>attemptId = newId, attemptUserId = user, score = calculateScore q subm,
             answers = subm, completedAt = now, timeSpent = spent\<rparr>]"
    and "r_totalAttempts r = length (attempts q) + 1"
    and "r_score r = calculateScore q subm"
    and "questions q' = questions q"
    and "\<forall>j. j \<noteq> i \<longrightarrow> findQuizById st' j = findQuizById st j"
    and "flashcards st' = flashcards st" and "contents st' = contents st"
proof -
  from assms obtain q c where q: "findQuizById st i = Some q"
    and c: "findOwnedContent st (quizContentId q) user = Some c"
    and v: "validateQuiz q" and vs: "validSubmission q subm"
    by (rule recordQuizAttempt_Inr)
  define q' where "q' = savedQuiz q user subm spent newId now saveTime"
  have k: "quizId q = i"
    using q unfolding findQuizById_def by (rule find_key)
  have k': "quizId q' = i"
    using k by (simp add: q'_def savedQuiz_def pushAttempt_fields)
  from recordQuizAttempt_ok [OF q c v vs, of spent newId now saveTime] assms
  have st': "st' = storeQuiz st q'"
    and r: "r = \<lparr>r_score = calculateScore q subm, r_totalAttempts = length (attempts q) + 1\<rparr>"
    by (simp_all add: q'_def)
  have 1: "findQuizById st' i = Some q'"
    unfolding st' using q k' by (rule storeQuiz_lookup_same)
  have 2: "attempts q' = attempts q @
           [\<lparr>attemptId = newId, attemptUserId = user, score = calculateScore q subm,
             answers = subm, completedAt = now, timeSpent = spent\<rparr>]"
    by (simp add: q'_def savedQuiz_def pushAttempt_attempts)
  have 3: "validateQuiz q'"
    using validate_pushAttempt [of q user subm spent newId now] v vs
    by (simp add: q'_def savedQuiz_def validateQuiz_def)
  have 4: "questions q' = questions q"
    by (simp add: q'_def savedQuiz_def pushAttempt_fields)
  have 5: "\<forall>j. j \<noteq> i \<longrightarrow> findQuizById st' j = findQuizById st j"
    unfolding st' using k' by (simp add: storeQuiz_lookup_other)
  have 6: "flashcards st' = flashcards st" "contents st' = contents st"
    unfolding st' by (simp_all add: storeQuiz_fields)
  have 7: "r_totalAttempts r = length (attempts q) + 1" "r_score r = calculateScore q subm"
    by (simp_all add: r)
  from q 1 v 3 2 7 4 5 6 that show ?thesis by blast
qed

text \<open>
  C7. The attempts list is append-only under \<open>recordQuizAttempt\<close>. A call that succeeds
  leaves the stored attempts as they were and appends exactly one new attempt, whose
  score is the one computed at submission; \<open>totalAttempts\<close> is the old length plus 1,
  so two calls in a row raise it by 1 each, and the attempts stored after the first are
  a prefix of those stored after the second. No other quiz, flashcard or content item
  changes. Pushing an attempt onto a quiz whose questions have been replaced leaves the
  earlier attempts, scores included, untouched: nothing recomputes a stored score. A call
  for a quiz that is not stored is answered with 404 and a call for a quiz whose content
  the caller does not own with 403. A call on a stored valid quiz owned by the caller
  succeeds when the schema validators accept every submitted answer and the computed
  score, and is answered with 400 otherwise; a call that is refused returns no new
  store.
\<close>

theorem recordQuizAttempt_append_only:
  "(recordQuizAttempt st user i subm spent newId now saveTime = Inr (st', r) \<longrightarrow>
      (\<exists>q q'. findQuizById st i = Some q \<and> findQuizById st' i = Some q'
         \<and> attempts q' = attempts q @
              [\<lparr>attemptId = newId, attemptUserId = user, score = calculateScore q subm,
                answers = subm, completedAt = now, timeSpent = spent\<rparr>]
         \<and> r_totalAttempts r = length (attempts q) + 1
         \<and> r_score r = calculateScore q subm
         \<and> questions q' = questions q
         \<and> (\<forall>j. j \<noteq> i \<longrightarrow> findQuizById st' j = findQuizById st j)
         \<and> flashcards st' = flashcards st \<and> contents st' = contents st))
   \<and> (recordQuizAttempt st user i subm spent newId now saveTime = Inr (st', r)
       \<and> recordQuizAttempt st' user2 i subm2 spent2 newId2 now2 saveTime2 = Inr (st'', r2) \<longrightarrow>
         r_totalAttempts r2 = r_totalAttempts r + 1
         \<and> (\<exists>q' q''. findQuizById st' i = Some q' \<and> findQuizById st'' i = Some q''
              \<and> length (attempts q'') = length (attempts q') + 1
              \<and> take (length (attempts q')) (attempts q'') = attempts q'))
   \<and> take (length (attempts qz))
         (attempts (pushAttempt (qz\<lparr>questions := qs'\<rparr>) user subm spent newId now))
       = attempts qz
   \<and> (findQuizById st i = None \<longrightarrow>
         recordQuizAttempt st user i subm spent newId now saveTime = Inl NotFound)
   \<and> (findQuizById st i = Some qz \<and> findOwnedContent st (quizContentId qz) user = None \<longrightarrow>
         recordQuizAttempt st user i subm spent newId now saveTime = Inl AccessDenied)
   \<and> (findQuizById st i = Some qz \<and> findOwnedContent st (quizContentId qz) user \<noteq> None
       \<and> validateQuiz qz \<longrightarrow>
         recordQuizAttempt st user i subm spent newId now saveTime =
           (if list_all validateAnswer subm \<and> validateScore (calculateScore qz subm)
            then Inr (storeQuiz st (savedQuiz qz user subm spent newId now saveTime),
                      \<lparr>r_score = calculateScore qz subm,
                       r_totalAttempts = length (attempts qz) + 1\<rparr>)
            else Inl ValidationError))"
proof (intro conjI impI)
  assume a: "recordQuizAttempt st user i subm spent newId now saveTime = Inr (st', r)"
  then show "\<exists>q q'. findQuizById st i = Some q \<and> findQuizById st' i = Some q'
         \<and> attempts q' = attempts q @
              [\<lparr>attemptId = newId, attemptUserId = user, score = calculateScore q subm,
                answers = subm, completedAt = now, timeSpent = spent\<rparr>]
         \<and> r_totalAttempts r = length (attempts q) + 1
         \<and> r_score r = calculateScore q subm
         \<and> questions q' = questions q
         \<and> (\<forall>j. j \<noteq> i \<longrightarrow> findQuizById st' j = findQuizById st j)
         \<and> flashcards st' = flashcards st \<and> contents st' = contents st"
    by (rule recordQuizAttempt_success) blast
next
  assume a: "recordQuizAttempt st user i subm spent newId now saveTime = Inr (st', r)
       \<and> recordQuizAttempt st' user2 i subm2 spent2 newId2 now2 saveTime2 = Inr (st'', r2)"
  from a obtain q q' where 1: "findQuizById st' i = Some q'"
    and 2: "r_totalAttempts r = length (attempts q) + 1"
    and 3: "attempts q' = attempts q @
              [\<lparr>attemptId = newId, attemptUserId = user, score = calculateScore q subm,
                answers = subm, completedAt = now, timeSpent = spent\<rparr>]"
    by (blast elim: recordQuizAttempt_success)
  from a obtain p p' where 4: "findQuizById st' i = Some p"
    and 5: "findQuizById st'' i = Some p'"
    and 6: "r_totalAttempts r2 = length (attempts p) + 1"
    and 7: "attempts p' = attempts p @
              [\<lparr>attemptId = newId2, attemptUserId = user2, score = calculateScore p subm2,
                answers = subm2, completedAt = now2, timeSpent = spent2\<rparr>]"
    by (blast elim: recordQuizAttempt_success)
  from 1 4 have pq: "p = q'" by simp
  show "r_totalAttempts r2 = r_totalAttempts r + 1"
    using 2 3 6 pq by simp
  show "\<exists>q' q''. findQuizById st' i = Some q' \<and> findQuizById st'' i = Some q''
              \<and> length (attempts q'') = length (attempts q') + 1
              \<and> take (length (attempts q')) (attempts q'') = attempts q'"
    using 4 5 7 by auto
next
  show "take (length (attempts qz))
         (attempts (pushAttempt (qz\<lparr>questions := qs'\<rparr>) user subm spent newId now))
       = attempts qz"
    by (simp add: pushAttempt_attempts)
next
  assume a: "findQuizById st i = Some qz \<and> findOwnedContent st (quizContentId qz) user \<noteq> None
       \<and> validateQuiz qz"
  then obtain c where c: "findOwnedContent st (quizContentId qz) user = Some c"
    by auto
  show "recordQuizAttempt st user i subm spent newId now saveTime =
           (if list_all validateAnswer subm \<and> validateScore (calculateScore qz subm)
            then Inr (storeQuiz st (savedQuiz qz user subm spent newId now saveTime),
                      \<lparr>r_score = calculateScore qz subm,
                       r_totalAttempts = length (attempts qz) + 1\<rparr>)
            else Inl ValidationError)"
  proof (cases "validSubmission qz subm")
    case True
    with a c show ?thesis
      by (simp add: recordQuizAttempt_ok) (simp add: validSubmission_def)
  next
    case False
    with a c show ?thesis
      by (simp add: recordQuizAttempt_refused [of st i qz user c]) (simp add: validSubmission_def)
  qed
next
  assume "findQuizById st i = None"
  then show "recordQuizAttempt st user i subm spent newId now saveTime = Inl NotFound"
    by (simp add: recordQuizAttempt_def)
next
  assume "findQuizById st i = Some qz \<and> findOwnedContent st (quizContentId qz) user = None"
  then show "recordQuizAttempt st user i subm spent newId now saveTime = Inl AccessDenied"
    by (simp add: recordQuizAttempt_def)
qed


text \<open>Two submissions to the quiz with weights 1 and 3, scored 75 and 100.\<close>

lemma calculateScore_questions:
  "questions q = questions q' \<Longrightarrow> calculateScore q subm = calculateScore q' subm"
  by (simp add: calculateScore_def)

lemma example_scores:
  "calculateScore (quiz13\<lparr>attempts := as, quizUpdatedAt := t\<rparr>) answersOnly3 = Num 75"
  "calculateScore (quiz13\<lparr>attempts := as, quizUpdatedAt := t\<rparr>) answersAll = Num 100"
  "calculateScore (quiz13\<lparr>attempts := as, quizUpdatedAt := t\<rparr>) [submitted [] True 3] = Num 0"
proof -
  have q: "questions (quiz13\<lparr>attempts := as, quizUpdatedAt := t\<rparr>) = questions quiz13"
    by simp
  have e3: "earnedPointsOf quiz13 answersOnly3 = Num 3"
    using quiz13_weights(4) whole_sums(2) [of quiz13 wholeWeight answersOnly3] quiz13_weights(1-3)
    by (simp add: quiz13_def)
  have e4: "earnedPointsOf quiz13 answersAll = totalPointsOf quiz13"
    using quiz13_all_correct by (intro all_correct_sums) (simp add: quiz13_def)
  have e0: "earnedPointsOf quiz13 [submitted [] True 3] = Num 0"
    by (simp add: earnedPointsOf_def quiz13_def tfQuestion_def answeredCorrectly_def
        matchingAnswer_def submitted_def js_sum_def)
  have "calculateScore quiz13 answersOnly3 = Num 75"
    unfolding calculateScore_sums quiz13_total e3 using score_3_of_4 by simp
  then show "calculateScore (quiz13\<lparr>attempts := as, quizUpdatedAt := t\<rparr>) answersOnly3 = Num 75"
    using calculateScore_questions [OF q] by simp
  have "calculateScore quiz13 answersAll = Num 100"
    unfolding calculateScore_sums e4 quiz13_total using score_all_of [of 4] by simp
  then show "calculateScore (quiz13\<lparr>attempts := as, quizUpdatedAt := t\<rparr>) answersAll = Num 100"
    using calculateScore_questions [OF q] by simp
  have "calculateScore quiz13 [submitted [] True 3] = Num 0"
    unfolding calculateScore_sums quiz13_total e0 using score_0_of_4 by simp
  then show "calculateScore (quiz13\<lparr>attempts := as, quizUpdatedAt := t\<rparr>) [submitted [] True 3] = Num 0"
    using calculateScore_questions [OF q] by simp
qed

lemma example_lookup:
  "findQuizById (quizDb as t) ''z1'' = Some (quiz13\<lparr>attempts := as, quizUpdatedAt := t\<rparr>)"
  "findOwnedContent (quizDb as t)
     (quizContentId (quiz13\<lparr>attempts := as, quizUpdatedAt := t\<rparr>)) ''u1'' = Some helloNote"
  by (simp_all add: findQuizById_def findOwnedContent_def quizDb_def quiz13_def helloNote_def)

lemma example_store:
  "storeQuiz (quizDb as t) (quiz13\<lparr>attempts := as', quizUpdatedAt := t'\<rparr>) = quizDb as' t'"
  by (simp add: storeQuiz_def quizDb_def quiz13_def)

lemma example_valid:
  "validateQuiz (quiz13\<lparr>attempts := [], quizUpdatedAt := t\<rparr>)"
  "validateQuiz (quiz13\<lparr>attempts := [attempt75], quizUpdatedAt := t\<rparr>)"
  "list_all validateAnswer answersOnly3" "list_all validateAnswer answersAll"
  "\<not> list_all validateAnswer [submitted [] True 3]"
  by (simp_all add: validateQuiz_def quiz13_def tfQuestion_def validateQuestion_def
      validateAttempt_def validateScore_def validateAnswer_def attempt75_def answersOnly3_def
      answersAll_def submitted_def)

lemma example_saved:
  "savedQuiz (quiz13\<lparr>attempts := [], quizUpdatedAt := 0\<rparr>) ''u1'' answersOnly3 60 ''a1'' 5000 5002
      = quiz13\<lparr>attempts := [attempt75], quizUpdatedAt := 5002\<rparr>"
  "savedQuiz (quiz13\<lparr>attempts := [attempt75], quizUpdatedAt := 5002\<rparr>) ''u1'' answersAll
        45 ''a2'' 9000 9003
      = quiz13\<lparr>attempts := [attempt75, attempt100], quizUpdatedAt := 9003\<rparr>"
  by (simp_all add: savedQuiz_def pushAttempt_def example_scores attempt75_def attempt100_def)

theorem recordQuizAttempt_append_only_witness:
  "findQuizById (quizDb [] 0) ''z1'' = Some (quiz13\<lparr>attempts := [], quizUpdatedAt := 0\<rparr>)
   \<and> findOwnedContent (quizDb [] 0)
       (quizContentId (quiz13\<lparr>attempts := [], quizUpdatedAt := 0\<rparr>)) ''u1'' \<noteq> None
   \<and> validateQuiz (quiz13\<lparr>attempts := [], quizUpdatedAt := 0\<rparr>)
   \<and> list_all validateAnswer answersOnly3
   \<and> recordQuizAttempt (quizDb [] 0) ''u1'' ''z1'' answersOnly3 60 ''a1'' 5000 5002
     = Inr (quizDb [attempt75] 5002, \<lparr>r_score = Num 75, r_totalAttempts = 1\<rparr>)
   \<and> recordQuizAttempt (quizDb [attempt75] 5002) ''u1'' ''z1'' answersAll 45 ''a2'' 9000 9003
     = Inr (quizDb [attempt75, attempt100] 9003, \<lparr>r_score = Num 100, r_totalAttempts = 2\<rparr>)
   \<and> r_totalAttempts \<lparr>r_score = Num 100, r_totalAttempts = 2\<rparr>
       = r_totalAttempts \<lparr>r_score = Num 75, r_totalAttempts = 1\<rparr> + 1
   \<and> (\<exists>q' q''. findQuizById (quizDb [attempt75] 5002) ''z1'' = Some q'
         \<and> findQuizById (quizDb [attempt75, attempt100] 9003) ''z1'' = Some q''
         \<and> length (attempts q'') = length (attempts q') + 1
         \<and> take (length (attempts q')) (attempts q'') = attempts q')
   \<and> \<not> list_all validateAnswer [submitted [] True 3]
   \<and> recordQuizAttempt (quizDb [] 0) ''u1'' ''z1'' [submitted [] True 3] 60 ''a1'' 5000 5002
     = Inl ValidationError
   \<and> findQuizById (quizDb [] 0) ''z9'' = None
   \<and> recordQuizAttempt (quizDb [] 0) ''u1'' ''z9'' answersAll 45 ''a2'' 9000 9003 = Inl NotFound
   \<and> findOwnedContent (quizDb [] 0)
       (quizContentId (quiz13\<lparr>attempts := [], quizUpdatedAt := 0\<rparr>)) ''u2'' = None
   \<and> recordQuizAttempt (quizDb [] 0) ''u2'' ''z1'' answersAll 45 ''a2'' 9000 9003 = Inl AccessDenied"
proof -
  let ?q0 = "quiz13\<lparr>attempts := [], quizUpdatedAt := 0\<rparr>"
  let ?q1 = "quiz13\<lparr>attempts := [attempt75], quizUpdatedAt := 5002\<rparr>"
  have f0: "findQuizById (quizDb [] 0) ''z1'' = Some ?q0"
    by (rule example_lookup)
  have o0: "findOwnedContent (quizDb [] 0) (quizContentId ?q0) ''u1'' \<noteq> None"
    unfolding example_lookup(2) by simp
  have f1: "findQuizById (quizDb [attempt75] 5002) ''z1'' = Some ?q1"
    by (rule example_lookup)
  have o1: "findOwnedContent (quizDb [attempt75] 5002) (quizContentId ?q1) ''u1'' \<noteq> None"
    unfolding example_lookup(2) by simp
  have n9: "findQuizById (quizDb [] 0) ''z9'' = None"
    by (simp add: findQuizById_def quizDb_def quiz13_def)
  have n2: "findOwnedContent (quizDb [] 0) (quizContentId ?q0) ''u2'' = None"
    by (simp add: findOwnedContent_def quizDb_def quiz13_def helloNote_def)
  from recordQuizAttempt_append_only
    [where st = "quizDb [] 0" and user = "''u1''" and i = "''z1''" and qz = ?q0
       and subm = answersOnly3 and spent = 60 and newId = "''a1''" and now = 5000 and saveTime = 5002]
    f0 o0 example_valid(1,3)
  have r1: "recordQuizAttempt (quizDb [] 0) ''u1'' ''z1'' answersOnly3 60 ''a1'' 5000 5002
     = Inr (quizDb [attempt75] 5002, \<lparr>r_score = Num 75, r_totalAttempts = 1\<rparr>)"
    by (simp add: example_scores example_saved example_store validateScore_def)
  from recordQuizAttempt_append_only
    [where st = "quizDb [attempt75] 5002" and user = "''u1''" and i = "''z1''" and qz = ?q1
       and subm = answersAll and spent = 45 and newId = "''a2''" and now = 9000 and saveTime = 9003]
    f1 o1 example_valid(2,4)
  have r2: "recordQuizAttempt (quizDb [attempt75] 5002) ''u1'' ''z1'' answersAll 45 ''a2'' 9000 9003
     = Inr (quizDb [attempt75, attempt100] 9003, \<lparr>r_score = Num 100, r_totalAttempts = 2\<rparr>)"
    by (simp add: example_scores example_saved example_store validateScore_def)
  from recordQuizAttempt_append_only
    [where st = "quizDb [] 0" and user = "''u1''" and i = "''z1''"
       and subm = answersOnly3 and spent = 60 and newId = "''a1''" and now = 5000 and saveTime = 5002
       and st' = "quizDb [attempt75] 5002" and r = "\<lparr>r_score = Num 75, r_totalAttempts = 1\<rparr>"
       and ?user2.0 = "''u1''" and ?subm2.0 = answersAll
       and ?spent2.0 = 45 and ?newId2.0 = "''a2''" and ?now2.0 = 9000 and ?saveTime2.0 = 9003
       and st'' = "quizDb [attempt75, attempt100] 9003"
       and ?r2.0 = "\<lparr>r_score = Num 100, r_totalAttempts = 2\<rparr>"]
    r1 r2
  have two: "r_totalAttempts \<lparr>r_score = Num 100, r_totalAttempts = 2\<rparr>
       = r_totalAttempts \<lparr>r_score = Num 75, r_totalAttempts = 1\<rparr> + 1
   \<and> (\<exists>q' q''. findQuizById (quizDb [attempt75] 5002) ''z1'' = Some q'
         \<and> findQuizById (quizDb [attempt75, attempt100] 9003) ''z1'' = Some q''
         \<and> length (attempts q'') = length (attempts q') + 1
         \<and> take (length (attempts q')) (attempts q'') = attempts q')"
    by blast
  from recordQuizAttempt_append_only
    [where st = "quizDb [] 0" and user = "''u1''" and i = "''z1''" and qz = ?q0
       and subm = "[submitted [] True 3]" and spent = 60 and newId = "''a1''" and now = 5000 and saveTime = 5002]
    f0 o0 example_valid(1,5)
  have r3: "recordQuizAttempt (quizDb [] 0) ''u1'' ''z1'' [submitted [] True 3] 60 ''a1'' 5000 5002
     = Inl ValidationError"
    by simp
  from recordQuizAttempt_append_only
    [where st = "quizDb [] 0" and user = "''u1''" and i = "''z9''"
       and subm = answersAll and spent = 45 and newId = "''a2''" and now = 9000 and saveTime = 9003] n9
  have r4: "recordQuizAttempt (quizDb [] 0) ''u1'' ''z9'' answersAll 45 ''a2'' 9000 9003 = Inl NotFound"
    by blast
  from recordQuizAttempt_append_only
    [where st = "quizDb [] 0" and user = "''u2''" and i = "''z1''" and qz = ?q0
       and subm = answersAll and spent = 45 and newId = "''a2''" and now = 9000 and saveTime = 9003] f0 n2
  have r5: "recordQuizAttempt (quizDb [] 0) ''u2'' ''z1'' answersAll 45 ''a2'' 9000 9003
     = Inl AccessDenied"
    by blast
  from f0 o0 example_valid(1,3,5) r1 r2 two r3 n9 r4 n2 r5 show ?thesis
    by (intro conjI) blast+
qed

end
